theory Spec2Isabelle
  imports Complex_Main "HOL-Library.Char_ord" "HOL-Library.List_Lexorder" "HOL-Library.Multiset"
begin

section \<open>JavaScript values\<close>

text \<open>
  The tracker is written in JavaScript. Three kinds of number occur in the code that is
  verified here, and each gets the type that holds exactly the values the code can produce.

  \<^item> A score is the result of \<open>parseInt\<close>: an integral double, \<open>NaN\<close> or an infinity
    (\<open>jsnum\<close>; the two zeros of a double, which \<open>>\<close> and \<open>===\<close> do not tell apart, are
    one value). The numbers inside a value read from a file (\<open>jsval\<close>) are of this kind
    too: the validator only asks whether a number is truthy.
  \<^item> A count (\<open>length\<close> of an array, \<open>Math.round\<close> of a non-negative value) is an integer.
  \<^item> The quotient of two counts is a non-negative finite double: a pair \<open>(m, e)\<close> that
    stands for \<open>m * 2 ^ e\<close>, with \<open>2 ^ 52 \<le> m < 2 ^ 53\<close> or \<open>m = 0\<close> (\<open>double\<close>).
\<close>

datatype jsnum = NaN | PosInf | NegInf | Fin int

datatype jsval =
    JUndefined
  | JNull
  | JBool bool
  | JNum jsnum
  | JStr string
  | JArr "jsval list"
  | JObj "(string \<times> jsval) list"

datatype jserror = Error string | TypeError | ConstraintError

type_synonym double = "int \<times> int"

text \<open>The relational operator \<open>a > b\<close> on numbers: false as soon as one side is \<open>NaN\<close>.\<close>

fun js_gt :: "jsnum \<Rightarrow> jsnum \<Rightarrow> bool" where
  "js_gt NaN b = False"
| "js_gt a NaN = False"
| "js_gt PosInf PosInf = False"
| "js_gt PosInf b = True"
| "js_gt a PosInf = False"
| "js_gt NegInf b = False"
| "js_gt (Fin a) NegInf = True"
| "js_gt (Fin a) (Fin b) = (b < a)"

text \<open>\<open>ToBoolean\<close>: the falsy values are \<open>undefined\<close>, \<open>null\<close>, \<open>false\<close>, \<open>0\<close>, \<open>NaN\<close>
  and the empty string.\<close>

fun truthy :: "jsval \<Rightarrow> bool" where
  "truthy JUndefined = False"
| "truthy JNull = False"
| "truthy (JBool b) = b"
| "truthy (JNum n) = (n \<noteq> NaN \<and> n \<noteq> Fin 0)"
| "truthy (JStr s) = (s \<noteq> [])"
| "truthy (JArr xs) = True"
| "truthy (JObj fs) = True"

text \<open>\<open>typeof v === 'object'\<close> holds of objects, arrays and \<open>null\<close>.\<close>

fun typeof_object :: "jsval \<Rightarrow> bool" where
  "typeof_object JNull = True"
| "typeof_object (JArr xs) = True"
| "typeof_object (JObj fs) = True"
| "typeof_object v = False"

fun isArray :: "jsval \<Rightarrow> bool" where
  "isArray (JArr xs) = True"
| "isArray v = False"

fun nullish :: "jsval \<Rightarrow> bool" where
  "nullish JUndefined = True"
| "nullish JNull = True"
| "nullish v = False"

text \<open>
  Reading a property \<open>v.k\<close> of a value that is neither \<open>null\<close> nor \<open>undefined\<close> (on those
  the read throws a \<open>TypeError\<close>, which every caller below checks with \<open>nullish\<close> first).
  An object is a list of bindings in which the first binding of a name is the one that
  counts. A missing property reads as \<open>undefined\<close>; so does every property of a primitive
  or of an array that the code below asks for (it never reads \<open>length\<close> or an index).
\<close>

fun get :: "jsval \<Rightarrow> string \<Rightarrow> jsval" where
  "get (JObj fs) k = (case map_of fs k of Some v \<Rightarrow> v | None \<Rightarrow> JUndefined)"
| "get v k = JUndefined"

subsection \<open>Doubles: the quotient of two counts\<close>

text \<open>
  \<open>bitlen n\<close> is the number of binary digits of \<open>n\<close>, \<open>round_div n d\<close> the integer nearest
  to \<open>n / d\<close> with ties going to the even one (the rounding mode of IEEE 754 arithmetic),
  and \<open>fl_ratio a b\<close> the double nearest to \<open>a / b\<close> for \<open>0 \<le> a\<close> and \<open>0 < b\<close>. The
  operands are array lengths and values derived from them, far inside the range where a
  double has a full 53-bit significand, so the exponent is left unbounded.
\<close>

function bitlen :: "int \<Rightarrow> nat" where
  "bitlen n = (if n \<le> 0 then 0 else Suc (bitlen (n div 2)))"
  by pat_completeness auto
termination
  by (relation "measure (\<lambda>n. nat n)") auto

declare bitlen.simps [simp del]

definition round_div :: "int \<Rightarrow> int \<Rightarrow> int" where
  "round_div n d =
     (let q = n div d; r = n mod d
      in if 2 * r < d then q else if d < 2 * r then q + 1 else if even q then q else q + 1)"

definition scale_num :: "int \<Rightarrow> int \<Rightarrow> int" where
  "scale_num a k = (if 0 \<le> k then a * 2 ^ nat k else a)"

definition scale_den :: "int \<Rightarrow> int \<Rightarrow> int" where
  "scale_den b k = (if 0 \<le> k then b else b * 2 ^ nat (- k))"

definition fl_ratio :: "int \<Rightarrow> int \<Rightarrow> double" where
  "fl_ratio a b =
     (if a = 0 then (0, 0)
      else let k1 = 52 - int (bitlen a) + int (bitlen b);
               k = (if 2 ^ 52 * scale_den b k1 \<le> scale_num a k1 then k1 else k1 + 1);
               m = round_div (scale_num a k) (scale_den b k)
           in if m = 2 ^ 53 then (2 ^ 52, 1 - k) else (m, - k))"

text \<open>The value a double stands for.\<close>

definition dval :: "double \<Rightarrow> rat" where
  "dval x = (case x of (m, e) \<Rightarrow> of_int m * power_int 2 e)"

text \<open>\<open>a / b\<close> on two counts, \<open>x * c\<close> for a double and a count, and \<open>Math.round\<close>, which
  rounds to the nearest integer with ties going up.\<close>

definition js_divide :: "int \<Rightarrow> int \<Rightarrow> double" where
  "js_divide a b = fl_ratio a b"

definition js_times :: "double \<Rightarrow> int \<Rightarrow> double" where
  "js_times x c = (case x of (m, e) \<Rightarrow> fl_ratio (scale_num (m * c) e) (scale_den 1 e))"

definition Math_round :: "double \<Rightarrow> int" where
  "Math_round x = (case x of (m, e) \<Rightarrow>
     if 0 \<le> e then m * 2 ^ nat e else (2 * m + 2 ^ nat (- e)) div 2 ^ (nat (- e) + 1))"

subsection \<open>\<open>parseInt\<close>\<close>

text \<open>
  \<open>parseInt(s)\<close> with no radix, on a string of code units below 256: leading white space
  is dropped, then a sign, then a \<open>0x\<close> prefix selects radix 16; the longest run of digits
  of the radix is read, and an empty run gives \<open>NaN\<close>. The integer read becomes a Number:
  it is rounded to the nearest double, and overflows to an infinity. (Beyond twenty
  significant decimal digits the language lets an implementation read the later digits
  as zeros; the exact reading is taken here.)
\<close>

definition is_ws :: "char \<Rightarrow> bool" where
  "is_ws c = (of_char c \<in> {9, 10, 11, 12, 13, 32, 160 :: nat})"

definition digit_of :: "char \<Rightarrow> nat" where
  "digit_of c =
     (let n = of_char c :: nat
      in if 48 \<le> n \<and> n \<le> 57 then n - 48
         else if 97 \<le> n \<and> n \<le> 122 then n - 87
         else if 65 \<le> n \<and> n \<le> 90 then n - 55
         else 36)"

definition number_of_int :: "int \<Rightarrow> jsnum" where
  "number_of_int n =
     (if \<bar>n\<bar> < 2 ^ 53 then Fin n
      else case fl_ratio \<bar>n\<bar> 1 of (m, e) \<Rightarrow>
        let v = m * 2 ^ nat e
        in if 2 ^ 1024 \<le> v then (if 0 < n then PosInf else NegInf) else Fin (sgn n * v))"

definition parseInt :: "string \<Rightarrow> jsnum" where
  "parseInt s =
     (let s1 = dropWhile is_ws s;
          sign = (case s1 of c # r \<Rightarrow> if c = CHR ''-'' then - 1 else 1 | [] \<Rightarrow> (1::int));
          s2 = (case s1 of c # r \<Rightarrow> if c = CHR ''-'' \<or> c = CHR ''+'' then r else s1 | [] \<Rightarrow> s1);
          hex = (case s2 of a # b # r \<Rightarrow> a = CHR ''0'' \<and> (b = CHR ''x'' \<or> b = CHR ''X'') | _ \<Rightarrow> False);
          R = (if hex then 16 else 10);
          s3 = (if hex then drop 2 s2 else s2);
          Z = takeWhile (\<lambda>c. digit_of c < R) s3
      in if Z = [] then NaN
         else number_of_int (sign * foldl (\<lambda>a c. a * int R + int (digit_of c)) 0 Z))"

text \<open>\<open>v || ''\<close> on an optional string: \<open>undefined\<close> and the empty string are falsy.\<close>

definition or_empty :: "string option \<Rightarrow> string" where
  "or_empty v = (case v of None \<Rightarrow> [] | Some s \<Rightarrow> if s = [] then [] else s)"

text \<open>\<open>Array.prototype.sort(cmp)\<close> is a stable sort: \<open>a\<close> stays before \<open>b\<close> unless
  \<open>cmp(a, b) > 0\<close>. On a consistent comparator every stable sort returns the same array;
  insertion from the right is one.\<close>

fun js_insert :: "('a \<Rightarrow> 'a \<Rightarrow> int) \<Rightarrow> 'a \<Rightarrow> 'a list \<Rightarrow> 'a list" where
  "js_insert cmp x [] = [x]"
| "js_insert cmp x (y # ys) = (if cmp x y \<le> 0 then x # y # ys else y # js_insert cmp x ys)"

definition js_sort :: "('a \<Rightarrow> 'a \<Rightarrow> int) \<Rightarrow> 'a list \<Rightarrow> 'a list" where
  "js_sort cmp xs = foldr (js_insert cmp) xs []"

text \<open>A \<open>Map\<close> keeps its keys in the order of their first insertion; setting a key that
  is present replaces the value in place.\<close>

fun map_set :: "'k \<Rightarrow> 'v \<Rightarrow> ('k \<times> 'v) list \<Rightarrow> ('k \<times> 'v) list" where
  "map_set k v [] = [(k, v)]"
| "map_set k v (p # ps) = (if fst p = k then (k, v) # ps else p # map_set k v ps)"

text \<open>The decimal rendering of an index inside a template literal.\<close>

definition digit_char :: "nat \<Rightarrow> char" where
  "digit_char n = ''0123456789'' ! n"

fun show_nat :: "nat \<Rightarrow> string" where
  "show_nat n = (if n < 10 then [digit_char n] else show_nat (n div 10) @ [digit_char (n mod 10)])"

declare show_nat.simps [simp del]

section \<open>The record store\<close>

text \<open>
  The four object stores of \<open>DB.init\<close>, each keyed by the \<open>id\<close> of its records. Ids are
  strings (\<open>generateId\<close>), timestamps are the time value in milliseconds that the ISO string
  written by \<open>new Date().toISOString()\<close> stands for and that \<open>new Date(m.date)\<close> reads back.
\<close>

record room =
  room_id :: string
  room_name :: string
  room_description :: string
  room_createdAt :: int
  room_updatedAt :: int

record player =
  player_id :: string
  player_roomId :: string
  player_name :: string
  player_nickname :: string
  player_createdAt :: int
  player_updatedAt :: int

record match =
  match_id :: string
  match_roomId :: string
  player1Id :: string
  player2Id :: string
  player1Score :: jsnum
  player2Score :: jsnum
  winnerId :: string
  match_notes :: string
  date :: int

record setting =
  setting_id :: string
  setting_value :: jsval
  setting_updatedAt :: int

record store =
  rooms :: "room list"
  players :: "player list"
  matches :: "match list"
  settings :: "setting list"

definition empty_store :: store where
  "empty_store = \<lparr>rooms = [], players = [], matches = [], settings = []\<rparr>"

text \<open>
  An object store holds one record per key and hands its records out in key order
  (strings compare by code unit). \<open>os_put\<close> is \<open>store.put\<close>, \<open>os_add\<close> is \<open>store.add\<close>, which
  fails on a key that is present, \<open>os_get\<close> is \<open>store.get\<close>, \<open>os_delete\<close> is \<open>store.delete\<close>
  and \<open>index_getAll\<close> is \<open>store.index(f).getAll(v)\<close>. Failures of the storage layer itself
  (the \<open>onerror\<close> callbacks for quota or I/O) are outside the model.
\<close>

fun os_put :: "('r \<Rightarrow> string) \<Rightarrow> 'r \<Rightarrow> 'r list \<Rightarrow> 'r list" where
  "os_put key r [] = [r]"
| "os_put key r (x # xs) =
     (if key r = key x then r # xs
      else if key r < key x then r # x # xs
      else x # os_put key r xs)"

definition os_get :: "('r \<Rightarrow> string) \<Rightarrow> string \<Rightarrow> 'r list \<Rightarrow> 'r option" where
  "os_get key k xs = find (\<lambda>r. key r = k) xs"

definition os_add :: "('r \<Rightarrow> string) \<Rightarrow> 'r \<Rightarrow> 'r list \<Rightarrow> jserror + 'r list" where
  "os_add key r xs =
     (case os_get key (key r) xs of Some x \<Rightarrow> Inl ConstraintError | None \<Rightarrow> Inr (os_put key r xs))"

definition os_delete :: "('r \<Rightarrow> string) \<Rightarrow> string \<Rightarrow> 'r list \<Rightarrow> 'r list" where
  "os_delete key k xs = filter (\<lambda>r. key r \<noteq> k) xs"

definition index_getAll :: "('r \<Rightarrow> string) \<Rightarrow> string \<Rightarrow> 'r list \<Rightarrow> 'r list" where
  "index_getAll f v xs = filter (\<lambda>r. f r = v) xs"

text \<open>The invariant of an object store: strictly increasing keys.\<close>

definition os_wf :: "('r \<Rightarrow> string) \<Rightarrow> 'r list \<Rightarrow> bool" where
  "os_wf key xs = sorted_wrt (<) (map key xs)"

definition store_wf :: "store \<Rightarrow> bool" where
  "store_wf s =
     (os_wf room_id (rooms s) \<and> os_wf player_id (players s) \<and>
      os_wf match_id (matches s) \<and> os_wf setting_id (settings s))"

subsection \<open>Rooms\<close>

text \<open>The argument objects of the three constructors. A property that may be left out
  is an option. The two scores of a match are what the form hands over, the \<open>value\<close>
  strings of its inputs, which \<open>createMatch\<close> reads with \<open>parseInt\<close>. The fresh id
  (\<open>generateId\<close>) and the clock readings, one for every \<open>new Date()\<close> of the
  constructor, are arguments.\<close>

record roomData =
  rd_name :: string
  rd_description :: "string option"

record playerData =
  pd_roomId :: string
  pd_name :: string
  pd_nickname :: "string option"

record matchData =
  md_roomId :: string
  md_player1Id :: string
  md_player2Id :: string
  md_player1Score :: string
  md_player2Score :: string
  md_notes :: "string option"

definition createRoom ::
    "store \<Rightarrow> roomData \<Rightarrow> string \<Rightarrow> int \<Rightarrow> int \<Rightarrow> jserror + (room \<times> store)" where
  "createRoom s roomData newId now now' =
     (let room = \<lparr>room_id = newId,
                  room_name = rd_name roomData,
                  room_description = or_empty (rd_description roomData),
                  room_createdAt = now,
                  room_updatedAt = now'\<rparr>
      in case os_add room_id room (rooms s) of
           Inl e \<Rightarrow> Inl e
         | Inr rs \<Rightarrow> Inr (room, s\<lparr>rooms := rs\<rparr>))"

definition getAllRooms :: "store \<Rightarrow> room list" where
  "getAllRooms s = rooms s"

definition getRoom :: "store \<Rightarrow> string \<Rightarrow> room option" where
  "getRoom s k = os_get room_id k (rooms s)"

subsection \<open>Players\<close>

definition createPlayer ::
    "store \<Rightarrow> playerData \<Rightarrow> string \<Rightarrow> int \<Rightarrow> int \<Rightarrow> jserror + (player \<times> store)" where
  "createPlayer s playerData newId now now' =
     (let player = \<lparr>player_id = newId,
                    player_roomId = pd_roomId playerData,
                    player_name = pd_name playerData,
                    player_nickname = or_empty (pd_nickname playerData),
                    player_createdAt = now,
                    player_updatedAt = now'\<rparr>
      in case os_add player_id player (players s) of
           Inl e \<Rightarrow> Inl e
         | Inr ps \<Rightarrow> Inr (player, s\<lparr>players := ps\<rparr>))"

definition getPlayersInRoom :: "store \<Rightarrow> string \<Rightarrow> player list" where
  "getPlayersInRoom s roomId = index_getAll player_roomId roomId (players s)"

definition getPlayer :: "store \<Rightarrow> string \<Rightarrow> player option" where
  "getPlayer s k = os_get player_id k (players s)"

definition deletePlayer :: "store \<Rightarrow> string \<Rightarrow> store" where
  "deletePlayer s k = s\<lparr>players := os_delete player_id k (players s)\<rparr>"

definition deleteAllPlayersInRoom :: "store \<Rightarrow> string \<Rightarrow> store" where
  "deleteAllPlayersInRoom s roomId =
     fold (\<lambda>player s'. deletePlayer s' (player_id player)) (getPlayersInRoom s roomId) s"

subsection \<open>Matches\<close>

definition createMatch :: "store \<Rightarrow> matchData \<Rightarrow> string \<Rightarrow> int \<Rightarrow> jserror + (match \<times> store)" where
  "createMatch s matchData newId now =
     (let p1Score = parseInt (md_player1Score matchData);
          p2Score = parseInt (md_player2Score matchData);
          winner = (if js_gt p1Score p2Score then md_player1Id matchData
                    else md_player2Id matchData);
          match = \<lparr>match_id = newId,
                   match_roomId = md_roomId matchData,
                   player1Id = md_player1Id matchData,
                   player2Id = md_player2Id matchData,
                   player1Score = p1Score,
                   player2Score = p2Score,
                   winnerId = winner,
                   match_notes = or_empty (md_notes matchData),
                   date = now\<rparr>
      in case os_add match_id match (matches s) of
           Inl e \<Rightarrow> Inl e
         | Inr ms \<Rightarrow> Inr (match, s\<lparr>matches := ms\<rparr>))"

text \<open>The winner as the specification words it: the side with the strictly greater
  score.\<close>

definition winner_has_greater_score :: "match \<Rightarrow> bool" where
  "winner_has_greater_score m =
     (winnerId m = player1Id m \<and> js_gt (player1Score m) (player2Score m) \<or>
      winnerId m = player2Id m \<and> js_gt (player2Score m) (player1Score m))"

definition getMatchesInRoom :: "store \<Rightarrow> string \<Rightarrow> match list" where
  "getMatchesInRoom s roomId = index_getAll match_roomId roomId (matches s)"

definition getPlayerMatches :: "store \<Rightarrow> string \<Rightarrow> match list" where
  "getPlayerMatches s playerId =
     (let player1Matches = index_getAll player1Id playerId (matches s);
          player2Matches = index_getAll player2Id playerId (matches s);
          allMatches = player1Matches @ player2Matches
      in map snd (fold (\<lambda>m acc. map_set (match_id m) m acc) allMatches []))"

definition deleteMatch :: "store \<Rightarrow> string \<Rightarrow> store" where
  "deleteMatch s k = s\<lparr>matches := os_delete match_id k (matches s)\<rparr>"

definition deleteAllMatchesInRoom :: "store \<Rightarrow> string \<Rightarrow> store" where
  "deleteAllMatchesInRoom s roomId =
     fold (\<lambda>m s'. deleteMatch s' (match_id m)) (getMatchesInRoom s roomId) s"

text \<open>
  \<open>deleteRoom\<close> starts the deletion of the room, of its players and of its matches and
  waits for all three. Each of them works on an object store of its own, so the order in
  which their requests are served does not change the outcome; they are run here in the
  order in which the code starts them.
\<close>

definition deleteRoom :: "store \<Rightarrow> string \<Rightarrow> store" where
  "deleteRoom s roomId =
     (let s1 = s\<lparr>rooms := os_delete room_id roomId (rooms s)\<rparr>;
          s2 = deleteAllPlayersInRoom s1 roomId
      in deleteAllMatchesInRoom s2 roomId)"

subsection \<open>Settings\<close>

definition saveSetting :: "store \<Rightarrow> string \<Rightarrow> jsval \<Rightarrow> int \<Rightarrow> setting \<times> store" where
  "saveSetting s k v now =
     (let setting = \<lparr>setting_id = k, setting_value = v, setting_updatedAt = now\<rparr>
      in (setting, s\<lparr>settings := os_put setting_id setting (settings s)\<rparr>))"

definition getSetting :: "store \<Rightarrow> string \<Rightarrow> jsval" where
  "getSetting s k =
     (case os_get setting_id k (settings s) of Some result \<Rightarrow> setting_value result | None \<Rightarrow> JNull)"

section \<open>Statistics\<close>

text \<open>
  \<open>Stats.calculatePlayerStats\<close>. The two average scores that the function also returns
  are computed from the scores alone and feed into no other field; they are left out.
\<close>

datatype ratio = Infinity | Finite double

record playerStats =
  st_matches :: nat
  st_wins :: nat
  st_losses :: nat
  st_winPercentage :: int
  st_currentStreak :: nat
  st_isWinningStreak :: bool
  st_winLossRatio :: ratio

text \<open>The comparator \<open>(a, b) => new Date(b.date) - new Date(a.date)\<close>.\<close>

definition newest_first :: "match \<Rightarrow> match \<Rightarrow> int" where
  "newest_first a b = date b - date a"

text \<open>The \<open>for\<close> loop over \<open>sortedMatches[1..]\<close>, with its \<open>break\<close>.\<close>

fun streak_loop :: "string \<Rightarrow> bool \<Rightarrow> match list \<Rightarrow> nat \<Rightarrow> nat" where
  "streak_loop pid isWinningStreak [] currentStreak = currentStreak"
| "streak_loop pid isWinningStreak (m # ms) currentStreak =
     (if (winnerId m = pid) = isWinningStreak
      then streak_loop pid isWinningStreak ms (Suc currentStreak)
      else currentStreak)"

definition current_streak :: "string \<Rightarrow> match list \<Rightarrow> nat \<times> bool" where
  "current_streak pid ms =
     (case js_sort newest_first ms of
        [] \<Rightarrow> (0, False)
      | m0 # rest \<Rightarrow> (streak_loop pid (winnerId m0 = pid) rest 1, winnerId m0 = pid))"

definition win_percentage :: "nat \<Rightarrow> nat \<Rightarrow> int" where
  "win_percentage wins n =
     (if 0 < n then Math_round (js_times (js_divide (int wins) (int n)) 100) else 0)"

definition win_loss_ratio :: "nat \<Rightarrow> nat \<Rightarrow> ratio" where
  "win_loss_ratio wins losses =
     (if 0 < losses
      then Finite (js_divide (Math_round (js_times (js_divide (int wins) (int losses)) 100)) 100)
      else if 0 < wins then Infinity else Finite (0, 0))"

definition calculatePlayerStats :: "player \<Rightarrow> match list \<Rightarrow> playerStats" where
  "calculatePlayerStats p ms =
     (let playerMatches =
            filter (\<lambda>m. player1Id m = player_id p \<or> player2Id m = player_id p) ms;
          wins = length (filter (\<lambda>m. winnerId m = player_id p) playerMatches);
          losses = length playerMatches - wins;
          streak = current_streak (player_id p) playerMatches
      in \<lparr>st_matches = length playerMatches,
          st_wins = wins,
          st_losses = losses,
          st_winPercentage = win_percentage wins (length playerMatches),
          st_currentStreak = fst streak,
          st_isWinningStreak = snd streak,
          st_winLossRatio = win_loss_ratio wins losses\<rparr>)"

text \<open>\<open>DB.getPlayerStats\<close> does the same over the matches the store holds for the player.\<close>

record dbPlayerStats =
  db_matches :: nat
  db_wins :: nat
  db_losses :: nat
  db_winPercentage :: int
  db_currentStreak :: nat
  db_isWinningStreak :: bool

definition getPlayerStats :: "store \<Rightarrow> string \<Rightarrow> jserror + dbPlayerStats" where
  "getPlayerStats s playerId =
     (case getPlayer s playerId of
        None \<Rightarrow> Inl (Error ''Player not found'')
      | Some p \<Rightarrow>
          let ms = getPlayerMatches s playerId;
              wins = length (filter (\<lambda>m. winnerId m = playerId) ms);
              losses = length ms - wins;
              streak = current_streak playerId ms
          in Inr \<lparr>db_matches = length ms,
                  db_wins = wins,
                  db_losses = losses,
                  db_winPercentage = win_percentage wins (length ms),
                  db_currentStreak = fst streak,
                  db_isWinningStreak = snd streak\<rparr>)"

subsection \<open>The leaderboard\<close>

record leaderboardEntry =
  lb_id :: string
  lb_name :: string
  lb_matches :: nat
  lb_wins :: nat
  lb_losses :: nat
  lb_winPercentage :: int
  lb_currentStreak :: nat
  lb_isWinningStreak :: bool

definition leaderboard_entry :: "match list \<Rightarrow> player \<Rightarrow> leaderboardEntry" where
  "leaderboard_entry ms p =
     (let stats = calculatePlayerStats p ms
      in \<lparr>lb_id = player_id p,
          lb_name = player_name p,
          lb_matches = st_matches stats,
          lb_wins = st_wins stats,
          lb_losses = st_losses stats,
          lb_winPercentage = st_winPercentage stats,
          lb_currentStreak = st_currentStreak stats,
          lb_isWinningStreak = st_isWinningStreak stats\<rparr>)"

definition leaderboard_cmp :: "leaderboardEntry \<Rightarrow> leaderboardEntry \<Rightarrow> int" where
  "leaderboard_cmp a b =
     (if lb_winPercentage b \<noteq> lb_winPercentage a then lb_winPercentage b - lb_winPercentage a
      else if lb_wins b \<noteq> lb_wins a then int (lb_wins b) - int (lb_wins a)
      else int (lb_matches a) - int (lb_matches b))"

definition generateLeaderboardData :: "player list \<Rightarrow> match list \<Rightarrow> leaderboardEntry list" where
  "generateLeaderboardData ps ms = js_sort leaderboard_cmp (map (leaderboard_entry ms) ps)"

subsection \<open>The statistics as the specification words them\<close>

text \<open>
  The streak of the specification: the matches sorted by date, newest first, ties kept in
  input order; the type of the streak is the outcome of the newest match; its length is
  the length of the longest run of that outcome at the front.
\<close>

definition spec_streak :: "string \<Rightarrow> match list \<Rightarrow> nat \<times> bool" where
  "spec_streak pid ms =
     (let sorted = sort_key (\<lambda>m. - date m) ms
      in if sorted = [] then (0, False)
         else let won = (winnerId (hd sorted) = pid)
              in (length (takeWhile (\<lambda>m. (winnerId m = pid) = won) sorted), won))"

text \<open>The order of the leaderboard in the specification: \<open>a\<close> may stand before \<open>b\<close>.\<close>

definition spec_ranks_before :: "leaderboardEntry \<Rightarrow> leaderboardEntry \<Rightarrow> bool" where
  "spec_ranks_before a b =
     (lb_winPercentage b < lb_winPercentage a \<or>
      lb_winPercentage a = lb_winPercentage b \<and>
        (lb_wins b < lb_wins a \<or> lb_wins a = lb_wins b \<and> lb_matches a \<le> lb_matches b))"

section \<open>Export and import\<close>

text \<open>
  The object returned by \<open>DB.exportAllData\<close> and \<open>DB.exportRoomData\<close>. A property that is absent
  (or is not an array, for the four lists) is \<open>None\<close>.
\<close>

record exportData =
  version :: int
  exportDate :: int
  data_rooms :: "room list option"
  data_room :: "room option"
  data_players :: "player list option"
  data_matches :: "match list option"
  data_settings :: "setting list option"

definition exportAllData :: "store \<Rightarrow> int \<Rightarrow> exportData" where
  "exportAllData s now =
     (let rs = getAllRooms s;
          ps = concat (map (\<lambda>room. getPlayersInRoom s (room_id room)) rs);
          ms = concat (map (\<lambda>room. getMatchesInRoom s (room_id room)) rs)
      in \<lparr>version = 1,
          exportDate = now,
          data_rooms = Some rs,
          data_room = None,
          data_players = Some ps,
          data_matches = Some ms,
          data_settings = Some (settings s)\<rparr>)"

definition exportRoomData :: "store \<Rightarrow> string \<Rightarrow> int \<Rightarrow> jserror + exportData" where
  "exportRoomData s roomId now =
     (case getRoom s roomId of
        None \<Rightarrow> Inl (Error ''Room not found'')
      | Some room \<Rightarrow>
          Inr \<lparr>version = 1,
               exportDate = now,
               data_rooms = None,
               data_room = Some room,
               data_players = Some (getPlayersInRoom s roomId),
               data_matches = Some (getMatchesInRoom s roomId),
               data_settings = None\<rparr>)"

definition put_all :: "('r \<Rightarrow> string) \<Rightarrow> 'r list option \<Rightarrow> 'r list \<Rightarrow> 'r list" where
  "put_all key rs xs = (case rs of Some ys \<Rightarrow> fold (os_put key) ys xs | None \<Rightarrow> xs)"

definition importData :: "exportData \<Rightarrow> store \<Rightarrow> jserror + store" where
  "importData d s =
     (if version d = 0 then Inl (Error ''Invalid data format'')
      else
        let rs = (case data_rooms d of
                    Some ys \<Rightarrow> fold (os_put room_id) ys (rooms s)
                  | None \<Rightarrow> (case data_room d of
                               Some r \<Rightarrow> os_put room_id r (rooms s)
                             | None \<Rightarrow> rooms s))
        in Inr \<lparr>rooms = rs,
                players = put_all player_id (data_players d) (players s),
                matches = put_all match_id (data_matches d) (matches s),
                settings = put_all setting_id (data_settings d) (settings s)\<rparr>)"

text \<open>Referential integrity: every player and every match belongs to a stored room.\<close>

definition rooms_exist :: "store \<Rightarrow> bool" where
  "rooms_exist s =
     (list_all (\<lambda>p. player_roomId p \<in> set (map room_id (rooms s))) (players s) \<and>
      list_all (\<lambda>m. match_roomId m \<in> set (map room_id (rooms s))) (matches s))"

section \<open>Validation of an imported file\<close>

text \<open>
  \<open>ExportImport.validateImportData\<close> on an arbitrary value, as \<open>JSON.parse\<close> may return it.
  A \<open>throw new Error(msg)\<close> is \<open>Inl (Error msg)\<close>; reading a property of \<open>null\<close> or
  \<open>undefined\<close> inside a \<open>forEach\<close> callback is \<open>Inl TypeError\<close>.
\<close>

definition missing_at :: "string \<Rightarrow> nat \<Rightarrow> string \<Rightarrow> string" where
  "missing_at kind index field =
     ''Invalid data format: '' @ kind @ '' at index '' @ show_nat index @ '' is missing '' @ field"

fun require :: "jsval \<Rightarrow> string \<Rightarrow> nat \<Rightarrow> string list \<Rightarrow> jserror + unit" where
  "require v kind index [] = Inr ()"
| "require v kind index (f # fs) =
     (if \<not> truthy (get v f) then Inl (Error (missing_at kind index f))
      else require v kind index fs)"

definition checkRoom :: "jsval \<Rightarrow> nat \<Rightarrow> jserror + unit" where
  "checkRoom room index =
     (if nullish room then Inl TypeError
      else require room ''Room'' index [''id'', ''name''])"

definition checkPlayer :: "jsval \<Rightarrow> nat \<Rightarrow> jserror + unit" where
  "checkPlayer player index =
     (if nullish player then Inl TypeError
      else require player ''Player'' index [''id'', ''roomId'', ''name''])"

definition checkMatch :: "jsval \<Rightarrow> nat \<Rightarrow> jserror + unit" where
  "checkMatch m index =
     (if nullish m then Inl TypeError
      else case require m ''Match'' index [''id'', ''roomId'', ''player1Id'', ''player2Id''] of
        Inl e \<Rightarrow> Inl e
      | Inr u \<Rightarrow>
          if get m ''player1Score'' = JUndefined
          then Inl (Error (missing_at ''Match'' index ''player1Score''))
          else if get m ''player2Score'' = JUndefined
          then Inl (Error (missing_at ''Match'' index ''player2Score''))
          else require m ''Match'' index [''winnerId'', ''date''])"

text \<open>\<open>xs.forEach((x, index) => ...)\<close> with a callback that may throw.\<close>

fun forEach :: "(jsval \<Rightarrow> nat \<Rightarrow> jserror + unit) \<Rightarrow> jsval list \<Rightarrow> nat \<Rightarrow> jserror + unit" where
  "forEach f [] index = Inr ()"
| "forEach f (x # xs) index =
     (case f x index of Inl e \<Rightarrow> Inl e | Inr u \<Rightarrow> forEach f xs (Suc index))"

text \<open>\<open>if (v && Array.isArray(v)) v.forEach(f)\<close>.\<close>

definition forEach_if_array :: "(jsval \<Rightarrow> nat \<Rightarrow> jserror + unit) \<Rightarrow> jsval \<Rightarrow> jserror + unit" where
  "forEach_if_array f v = (case v of JArr xs \<Rightarrow> forEach f xs 0 | _ \<Rightarrow> Inr ())"

definition checkSingleRoom :: "jsval \<Rightarrow> jserror + unit" where
  "checkSingleRoom room =
     (if \<not> truthy room then Inr ()
      else if \<not> truthy (get room ''id'') then Inl (Error ''Invalid data format: Room is missing id'')
      else if \<not> truthy (get room ''name'') then Inl (Error ''Invalid data format: Room is missing name'')
      else Inr ())"

definition validateImportData :: "jsval \<Rightarrow> jserror + unit" where
  "validateImportData data =
     (if \<not> truthy data \<or> \<not> typeof_object data
      then Inl (Error ''Invalid data format: Data must be an object'')
      else if \<not> truthy (get data ''version'')
      then Inl (Error ''Invalid data format: Missing version'')
      else if (\<not> truthy (get data ''rooms'') \<or> \<not> isArray (get data ''rooms'')) \<and>
              \<not> truthy (get data ''room'')
      then Inl (Error ''Invalid data format: Missing rooms or room'')
      else case forEach_if_array checkRoom (get data ''rooms'') of
        Inl e \<Rightarrow> Inl e
      | Inr u \<Rightarrow> (case checkSingleRoom (get data ''room'') of
        Inl e \<Rightarrow> Inl e
      | Inr u \<Rightarrow> (case forEach_if_array checkPlayer (get data ''players'') of
        Inl e \<Rightarrow> Inl e
      | Inr u \<Rightarrow> forEach_if_array checkMatch (get data ''matches''))))"

section \<open>Example data\<close>

text \<open>A store with one room, and a store with two rooms.\<close>

definition ex_store :: store where
  "ex_store =
     \<lparr>rooms = [\<lparr>room_id = ''r1'', room_name = ''Club'', room_description = [],
                room_createdAt = 1, room_updatedAt = 1\<rparr>],
      players = [\<lparr>player_id = ''p1'', player_roomId = ''r1'', player_name = ''Ann'',
                  player_nickname = [], player_createdAt = 2, player_updatedAt = 2\<rparr>,
                 \<lparr>player_id = ''p2'', player_roomId = ''r1'', player_name = ''Bob'',
                  player_nickname = [], player_createdAt = 3, player_updatedAt = 3\<rparr>],
      matches = [\<lparr>match_id = ''m1'', match_roomId = ''r1'', player1Id = ''p1'',
                  player2Id = ''p2'', player1Score = Fin 11, player2Score = Fin 9,
                  winnerId = ''p1'', match_notes = [], date = 4\<rparr>],
      settings = [\<lparr>setting_id = ''lastRoomId'', setting_value = JStr ''r1'',
                   setting_updatedAt = 5\<rparr>]\<rparr>"

definition ex_store2 :: store where
  "ex_store2 =
     \<lparr>rooms = [\<lparr>room_id = ''r1'', room_name = ''Club'', room_description = [],
                room_createdAt = 1, room_updatedAt = 1\<rparr>,
               \<lparr>room_id = ''r2'', room_name = ''Office'', room_description = [],
                room_createdAt = 1, room_updatedAt = 1\<rparr>],
      players = [\<lparr>player_id = ''p1'', player_roomId = ''r1'', player_name = ''Ann'',
                  player_nickname = [], player_createdAt = 2, player_updatedAt = 2\<rparr>,
                 \<lparr>player_id = ''p2'', player_roomId = ''r1'', player_name = ''Bob'',
                  player_nickname = [], player_createdAt = 3, player_updatedAt = 3\<rparr>,
                 \<lparr>player_id = ''p3'', player_roomId = ''r2'', player_name = ''Cy'',
                  player_nickname = [], player_createdAt = 3, player_updatedAt = 3\<rparr>,
                 \<lparr>player_id = ''p4'', player_roomId = ''r2'', player_name = ''Di'',
                  player_nickname = [], player_createdAt = 3, player_updatedAt = 3\<rparr>],
      matches = [\<lparr>match_id = ''m1'', match_roomId = ''r1'', player1Id = ''p1'',
                  player2Id = ''p2'', player1Score = Fin 11, player2Score = Fin 9,
                  winnerId = ''p1'', match_notes = [], date = 4\<rparr>,
                 \<lparr>match_id = ''m2'', match_roomId = ''r1'', player1Id = ''p1'',
                  player2Id = ''p2'', player1Score = Fin 8, player2Score = Fin 11,
                  winnerId = ''p2'', match_notes = [], date = 5\<rparr>,
                 \<lparr>match_id = ''m3'', match_roomId = ''r1'', player1Id = ''p2'',
                  player2Id = ''p1'', player1Score = Fin 11, player2Score = Fin 3,
                  winnerId = ''p2'', match_notes = [], date = 6\<rparr>,
                 \<lparr>match_id = ''m4'', match_roomId = ''r2'', player1Id = ''p3'',
                  player2Id = ''p4'', player1Score = Fin 11, player2Score = Fin 3,
                  winnerId = ''p3'', match_notes = [], date = 6\<rparr>],
      settings = []\<rparr>"

text \<open>Players and matches of one room, given by the ids, the scores and the time.\<close>

definition ex_player :: "string \<Rightarrow> string \<Rightarrow> player" where
  "ex_player i n =
     \<lparr>player_id = i, player_roomId = ''r1'', player_name = n, player_nickname = [],
      player_createdAt = 0, player_updatedAt = 0\<rparr>"

definition ex_match :: "string \<Rightarrow> string \<Rightarrow> string \<Rightarrow> int \<Rightarrow> int \<Rightarrow> int \<Rightarrow> match" where
  "ex_match i a b sa sb t =
     \<lparr>match_id = i, match_roomId = ''r1'', player1Id = a, player2Id = b,
      player1Score = Fin sa, player2Score = Fin sb,
      winnerId = (if sb < sa then a else b), match_notes = [], date = t\<rparr>"

definition ex_streak_matches :: "match list" where
  "ex_streak_matches =
     [ex_match ''m1'' ''ann'' ''bob'' 11 5 1, ex_match ''m2'' ''bob'' ''ann'' 7 11 2,
      ex_match ''m3'' ''ann'' ''bob'' 9 11 3, ex_match ''m4'' ''ann'' ''bob'' 11 8 4]"

definition ex_league_players :: "player list" where
  "ex_league_players = [ex_player ''cy'' ''Cy'', ex_player ''bob'' ''Bob'', ex_player ''ann'' ''Ann'']"

definition ex_league_matches :: "match list" where
  "ex_league_matches =
     [ex_match ''m1'' ''ann'' ''cy'' 11 3 1, ex_match ''m2'' ''ann'' ''cy'' 11 4 2,
      ex_match ''m3'' ''bob'' ''cy'' 11 5 3, ex_match ''m4'' ''cy'' ''bob'' 6 11 4,
      ex_match ''m5'' ''cy'' ''bob'' 11 9 5]"

definition ex_ratio_matches :: "match list" where
  "ex_ratio_matches =
     [ex_match ''m1'' ''ann'' ''bob'' 11 5 1, ex_match ''m2'' ''ann'' ''bob'' 3 11 2,
      ex_match ''m3'' ''ann'' ''bob'' 4 11 3, ex_match ''m4'' ''bob'' ''ann'' 11 2 4]"

text \<open>A file to import in which one score is \<open>null\<close> and the other is \<open>0\<close>.\<close>

definition ex_bundle :: jsval where
  "ex_bundle = JObj
     [(''version'', JNum (Fin 1)),
      (''rooms'', JArr [JObj [(''id'', JStr ''r1''), (''name'', JStr ''Club'')]]),
      (''players'', JArr []),
      (''matches'', JArr [JObj
         [(''id'', JStr ''m1''), (''roomId'', JStr ''r1''),
          (''player1Id'', JStr ''p1''), (''player2Id'', JStr ''p2''),
          (''player1Score'', JNull), (''player2Score'', JNum (Fin 0)),
          (''winnerId'', JStr ''p2''), (''date'', JStr ''2024-01-01T00:00:00.000Z'')]])]"

section \<open>Properties of an object store\<close>

lemma os_get_put_same: "os_get key (key r) (os_put key r xs) = Some r"
  by (induction xs) (auto simp: os_get_def)

lemma os_get_put_other: "k \<noteq> key r \<Longrightarrow> os_get key k (os_put key r xs) = os_get key k xs"
  by (induction xs) (auto simp: os_get_def)

lemma os_get_None_iff: "os_get key k xs = None \<longleftrightarrow> k \<notin> key ` set xs"
  by (auto simp: os_get_def find_None_iff)

lemma os_wf_Cons: "os_wf key (x # xs) \<longleftrightarrow> (\<forall>y\<in>set xs. key x < key y) \<and> os_wf key xs"
  by (auto simp: os_wf_def)

lemma set_os_put:
  "os_wf key xs \<Longrightarrow> set (os_put key r xs) = insert r {x \<in> set xs. key x \<noteq> key r}"
  by (induction xs) (auto simp: os_wf_Cons)

lemma os_wf_put: "os_wf key xs \<Longrightarrow> os_wf key (os_put key r xs)"
proof (induction xs)
  case Nil
  then show ?case by (simp add: os_wf_def)
next
  case (Cons x xs)
  then have wf: "os_wf key xs" and lt: "\<forall>y\<in>set xs. key x < key y"
    by (simp_all add: os_wf_Cons)
  show ?case
  proof (cases "key r = key x")
    case True
    with lt wf show ?thesis by (simp add: os_wf_Cons)
  next
    case False
    show ?thesis
    proof (cases "key r < key x")
      case True
      with lt wf False show ?thesis by (auto simp: os_wf_Cons)
    next
      case ge: False
      with False have "key x < key r" by auto
      with False ge lt wf Cons.IH show ?thesis
        by (auto simp: os_wf_Cons set_os_put)
    qed
  qed
qed

lemma os_wf_inj: "os_wf key xs \<Longrightarrow> inj_on key (set xs)"
  by (induction xs) (auto simp: os_wf_Cons)

lemma os_get_mem: "os_wf key xs \<Longrightarrow> r \<in> set xs \<Longrightarrow> os_get key (key r) xs = Some r"
  by (induction xs) (auto simp: os_wf_Cons os_get_def)

text \<open>Two object stores with the same records are the same list.\<close>

lemma os_wf_unique:
  assumes "os_wf key xs" "os_wf key ys" "set xs = set ys"
  shows "xs = ys"
proof -
  have sx: "sorted (map key xs)" "distinct (map key xs)"
    using assms(1) by (simp_all add: os_wf_def strict_sorted_iff)
  have sy: "sorted (map key ys)" "distinct (map key ys)"
    using assms(2) by (simp_all add: os_wf_def strict_sorted_iff)
  have "inj_on key (set xs \<union> set ys)"
    using os_wf_inj [OF assms(1)] assms(3) by simp
  then show ?thesis
    using sx sy assms(3) by (rule map_sorted_distinct_set_unique)
qed

text \<open>Putting a list of records one after the other, as the loops of \<open>importData\<close> do.\<close>

lemma fold_os_put:
  "inj_on key (set ys \<union> set acc) \<Longrightarrow> os_wf key acc \<Longrightarrow>
   os_wf key (fold (os_put key) ys acc) \<and>
   set (fold (os_put key) ys acc) = set ys \<union> {a \<in> set acc. key a \<notin> key ` set ys}"
proof (induction ys arbitrary: acc)
  case Nil
  then show ?case by simp
next
  case (Cons y ys)
  have wf': "os_wf key (os_put key y acc)"
    using Cons.prems(2) by (rule os_wf_put)
  have set': "set (os_put key y acc) = insert y {x \<in> set acc. key x \<noteq> key y}"
    using Cons.prems(2) by (rule set_os_put)
  have inj': "inj_on key (set ys \<union> set (os_put key y acc))"
    using Cons.prems(1) set' by (auto simp: inj_on_def)
  from Cons.IH [OF inj' wf'] set' Cons.prems(1) show ?case
    by (auto simp: inj_on_def)
qed

lemma fold_put_rebuild:
  assumes "os_wf key xs" "set ys = set xs"
  shows "fold (os_put key) ys [] = xs"
proof -
  have "inj_on key (set ys \<union> set [])"
    using os_wf_inj [OF assms(1)] assms(2) by simp
  moreover have "os_wf key []" by (simp add: os_wf_def)
  ultimately have "os_wf key (fold (os_put key) ys [])"
    and "set (fold (os_put key) ys []) = set ys"
    using fold_os_put [of key ys "[]"] by auto
  with assms show ?thesis by (intro os_wf_unique [of key]) auto
qed

lemma set_concat_index:
  "set (concat (map (\<lambda>r. index_getAll f (g r) xs) rs)) = {x \<in> set xs. f x \<in> g ` set rs}"
  by (auto simp: index_getAll_def)

text \<open>Deleting the records an index lookup returned, one id after the other.\<close>

lemma fold_deletePlayer:
  "fold (\<lambda>p s'. deletePlayer s' (player_id p)) ps s =
     s\<lparr>players := filter (\<lambda>q. player_id q \<notin> player_id ` set ps) (players s)\<rparr>"
proof (induction ps arbitrary: s)
  case Nil
  then show ?case by simp
next
  case (Cons p ps)
  show ?case
    by (simp add: Cons.IH) (simp add: deletePlayer_def os_delete_def conj_commute)
qed

lemma fold_deleteMatch:
  "fold (\<lambda>m s'. deleteMatch s' (match_id m)) ms s =
     s\<lparr>matches := filter (\<lambda>q. match_id q \<notin> match_id ` set ms) (matches s)\<rparr>"
proof (induction ms arbitrary: s)
  case Nil
  then show ?case by simp
next
  case (Cons m ms)
  show ?case
    by (simp add: Cons.IH) (simp add: deleteMatch_def os_delete_def conj_commute)
qed

lemma filter_by_index_ids:
  assumes "inj_on key (set xs)"
  shows "filter (\<lambda>q. key q \<notin> key ` set (index_getAll f v xs)) xs = filter (\<lambda>q. f q \<noteq> v) xs"
proof (rule filter_cong [OF refl])
  fix q assume q: "q \<in> set xs"
  show "(key q \<notin> key ` set (index_getAll f v xs)) = (f q \<noteq> v)"
  proof
    assume "key q \<notin> key ` set (index_getAll f v xs)"
    with q show "f q \<noteq> v" by (auto simp: index_getAll_def)
  next
    assume ne: "f q \<noteq> v"
    show "key q \<notin> key ` set (index_getAll f v xs)"
    proof
      assume "key q \<in> key ` set (index_getAll f v xs)"
      then obtain q' where q': "q' \<in> set xs" "f q' = v" "key q = key q'"
        by (auto simp: index_getAll_def)
      with assms q have "q = q'" by (auto simp: inj_on_def)
      with q' ne show False by simp
    qed
  qed
qed

lemma deleteRoom_eq:
  assumes "store_wf s"
  shows "deleteRoom s R =
     \<lparr>rooms = filter (\<lambda>r. room_id r \<noteq> R) (rooms s),
      players = filter (\<lambda>p. player_roomId p \<noteq> R) (players s),
      matches = filter (\<lambda>m. match_roomId m \<noteq> R) (matches s),
      settings = settings s\<rparr>"
proof -
  have ip: "inj_on player_id (set (players s))" and im: "inj_on match_id (set (matches s))"
    using assms by (simp_all add: store_wf_def os_wf_inj)
  show ?thesis
    by (simp add: deleteRoom_def deleteAllPlayersInRoom_def deleteAllMatchesInRoom_def
        getPlayersInRoom_def getMatchesInRoom_def fold_deletePlayer fold_deleteMatch
        filter_by_index_ids [OF ip] filter_by_index_ids [OF im] os_delete_def)
qed

text \<open>The operations keep the store well formed.\<close>

lemma store_wf_empty: "store_wf empty_store"
  by (simp add: store_wf_def empty_store_def os_wf_def)

lemma os_wf_filter: "os_wf key xs \<Longrightarrow> os_wf key (filter P xs)"
  by (induction xs) (auto simp: os_wf_Cons)

lemma os_wf_fold_put: "os_wf key xs \<Longrightarrow> os_wf key (fold (os_put key) ys xs)"
  by (induction ys arbitrary: xs) (simp_all add: os_wf_put)

lemma store_wf_createRoom:
  "store_wf s \<Longrightarrow> createRoom s rd i now now' = Inr (r, s') \<Longrightarrow> store_wf s'"
  by (auto simp: createRoom_def os_add_def Let_def store_wf_def os_wf_put
      split: option.splits)

lemma store_wf_createPlayer:
  "store_wf s \<Longrightarrow> createPlayer s pd i now now' = Inr (p, s') \<Longrightarrow> store_wf s'"
  by (auto simp: createPlayer_def os_add_def Let_def store_wf_def os_wf_put
      split: option.splits)

lemma store_wf_createMatch:
  "store_wf s \<Longrightarrow> createMatch s md i now = Inr (m, s') \<Longrightarrow> store_wf s'"
  by (auto simp: createMatch_def os_add_def Let_def store_wf_def os_wf_put
      split: option.splits)

lemma store_wf_saveSetting: "store_wf s \<Longrightarrow> store_wf (snd (saveSetting s k v now))"
  by (simp add: saveSetting_def Let_def store_wf_def os_wf_put)

lemma store_wf_deleteRoom: "store_wf s \<Longrightarrow> store_wf (deleteRoom s R)"
  by (simp add: deleteRoom_eq) (simp add: store_wf_def os_wf_filter)

lemma store_wf_importData:
  "store_wf s \<Longrightarrow> importData d s = Inr s' \<Longrightarrow> store_wf s'"
  by (auto simp: importData_def put_all_def store_wf_def os_wf_fold_put os_wf_put
      split: if_splits option.splits)

lemma js_gt_total: "a \<noteq> NaN \<Longrightarrow> b \<noteq> NaN \<Longrightarrow> a \<noteq> b \<Longrightarrow> \<not> js_gt a b \<Longrightarrow> js_gt b a"
  by (cases a; cases b) auto

lemma parseInt_examples:
  "parseInt ''7'' = Fin 7" "parseInt ''.5'' = NaN" "parseInt ''11'' = Fin 11"
  "parseInt ''9'' = Fin 9" "parseInt '' -0x1F'' = Fin (- 31)" "parseInt ''1e3'' = Fin 1"
  "parseInt [] = NaN" "parseInt ''9007199254740993'' = Fin 9007199254740992"
  by code_simp+

lemma ex_wf: "store_wf ex_store"
  by (simp add: ex_store_def store_wf_def os_wf_def)

lemma ex_re: "rooms_exist ex_store"
  by (simp add: ex_store_def rooms_exist_def)

section \<open>Properties of the validator\<close>

lemma digit_char_inj: "n < 10 \<Longrightarrow> m < 10 \<Longrightarrow> digit_char n = digit_char m \<Longrightarrow> n = m"
proof -
  assume a: "n < 10" "m < 10" "digit_char n = digit_char m"
  have d: "distinct ''0123456789''" by simp
  have "n < length ''0123456789''" "m < length ''0123456789''" using a by simp_all
  with d a(3) show ?thesis
    unfolding digit_char_def by (simp only: nth_eq_iff_index_eq)
qed

lemma digit_char_no_space: "n < 10 \<Longrightarrow> digit_char n \<noteq> CHR '' ''"
proof -
  assume "n < 10"
  then have "digit_char n \<in> set ''0123456789''"
    unfolding digit_char_def by (intro nth_mem) simp
  then show ?thesis by auto
qed

lemma show_nat_no_space: "CHR '' '' \<notin> set (show_nat n)"
proof (induction n rule: show_nat.induct)
  case (1 n)
  show ?case
  proof (cases "n < 10")
    case True
    then show ?thesis
      using digit_char_no_space [of n] by (subst show_nat.simps) auto
  next
    case False
    then show ?thesis
      using 1 digit_char_no_space [of "n mod 10"] by (subst show_nat.simps) auto
  qed
qed

lemma show_nat_not_Nil: "show_nat n \<noteq> []"
  by (subst show_nat.simps) simp

lemma show_nat_inj: "show_nat n = show_nat m \<Longrightarrow> n = m"
proof (induction n arbitrary: m rule: show_nat.induct)
  case (1 n)
  show ?case
  proof (cases "n < 10")
    case n: True
    show ?thesis
    proof (cases "m < 10")
      case True
      with n "1.prems" show ?thesis
        by (simp add: show_nat.simps [of n] show_nat.simps [of m] digit_char_inj)
    next
      case False
      with n "1.prems" show_nat_not_Nil [of "m div 10"] show ?thesis
        by (simp add: show_nat.simps [of n] show_nat.simps [of m])
    qed
  next
    case n: False
    show ?thesis
    proof (cases "m < 10")
      case True
      with n "1.prems" show_nat_not_Nil [of "n div 10"] show ?thesis
        by (simp add: show_nat.simps [of n] show_nat.simps [of m])
    next
      case False
      with n "1.prems" have e: "show_nat (n div 10) = show_nat (m div 10)"
        and d: "digit_char (n mod 10) = digit_char (m mod 10)"
        by (simp_all add: show_nat.simps [of n] show_nat.simps [of m])
      from "1.IH" [OF n e] have "n div 10 = m div 10" .
      moreover from d have "n mod 10 = m mod 10" by (intro digit_char_inj) simp_all
      ultimately show ?thesis by (metis div_mult_mod_eq)
    qed
  qed
qed

lemma split_at_first:
  "x \<notin> set xs \<Longrightarrow> x \<notin> set xs' \<Longrightarrow>
   (xs @ x # ys = xs' @ x # ys') = (xs = xs' \<and> ys = ys')"
proof (induction xs arbitrary: xs')
  case Nil
  then show ?case by (cases xs') auto
next
  case (Cons a xs)
  then show ?case by (cases xs') auto
qed

lemma missing_at_eq_iff:
  assumes "CHR '' '' \<notin> set k" "CHR '' '' \<notin> set k'"
  shows "missing_at k i f = missing_at k' i' f' \<longleftrightarrow> k = k' \<and> i = i' \<and> f = f'"
proof -
  have A: "k @ CHR '' '' # r = k' @ CHR '' '' # r' \<longleftrightarrow> k = k' \<and> r = r'" for r r'
    using assms by (rule split_at_first)
  have B: "show_nat i @ CHR '' '' # r = show_nat i' @ CHR '' '' # r' \<longleftrightarrow>
           show_nat i = show_nat i' \<and> r = r'" for r r'
    using show_nat_no_space show_nat_no_space by (rule split_at_first)
  have "missing_at k i f = missing_at k' i' f' \<longleftrightarrow>
        k @ CHR '' '' # (''at index '' @ show_nat i @ '' is missing '' @ f) =
        k' @ CHR '' '' # (''at index '' @ show_nat i' @ '' is missing '' @ f')"
    by (simp add: missing_at_def)
  also have "\<dots> \<longleftrightarrow> k = k' \<and>
        show_nat i @ CHR '' '' # (''is missing '' @ f) =
        show_nat i' @ CHR '' '' # (''is missing '' @ f')"
    unfolding A by simp
  also have "\<dots> \<longleftrightarrow> k = k' \<and> show_nat i = show_nat i' \<and> f = f'"
    unfolding B by simp
  finally show ?thesis using show_nat_inj by auto
qed

lemma forEach_Inl:
  "forEach f xs i = Inl e \<Longrightarrow> \<exists>j<length xs. f (xs ! j) (i + j) = Inl e"
proof (induction xs arbitrary: i)
  case Nil
  then show ?case by simp
next
  case (Cons x xs)
  show ?case
  proof (cases "f x i")
    case (Inl e')
    with Cons.prems show ?thesis by (intro exI [of _ 0]) simp
  next
    case (Inr u)
    with Cons.prems have "forEach f xs (Suc i) = Inl e" by simp
    from Cons.IH [OF this] obtain j where "j < length xs" "f (xs ! j) (Suc i + j) = Inl e"
      by blast
    then show ?thesis by (intro exI [of _ "Suc j"]) simp
  qed
qed

lemma require_Inl:
  "require v k i fs = Inl e \<Longrightarrow> \<exists>g\<in>set fs. e = Error (missing_at k i g) \<and> \<not> truthy (get v g)"
  by (induction fs) (auto split: if_splits)

lemma kinds_no_space:
  "CHR '' '' \<notin> set ''Room''" "CHR '' '' \<notin> set ''Player''" "CHR '' '' \<notin> set ''Match''"
  by simp_all

lemma missing_at_Match_eq:
  "missing_at ''Match'' j g = missing_at ''Match'' i f \<longleftrightarrow> j = i \<and> g = f"
  using missing_at_eq_iff [OF kinds_no_space(3) kinds_no_space(3), of j g i f] by simp

lemma missing_at_Room_neq:
  "missing_at ''Room'' j g \<noteq> missing_at ''Match'' i f"
  "missing_at ''Match'' i f \<noteq> missing_at ''Room'' j g"
  using missing_at_eq_iff [OF kinds_no_space(1) kinds_no_space(3), of j g i f] by auto

lemma missing_at_Player_neq:
  "missing_at ''Player'' j g \<noteq> missing_at ''Match'' i f"
  "missing_at ''Match'' i f \<noteq> missing_at ''Player'' j g"
  using missing_at_eq_iff [OF kinds_no_space(2) kinds_no_space(3), of j g i f] by auto

lemma checkRoom_not_Match: "checkRoom v j \<noteq> Inl (Error (missing_at ''Match'' i f))"
proof
  assume a: "checkRoom v j = Inl (Error (missing_at ''Match'' i f))"
  then have "require v ''Room'' j [''id'', ''name''] = Inl (Error (missing_at ''Match'' i f))"
    by (simp add: checkRoom_def split: if_splits)
  from require_Inl [OF this] show False
    by (auto simp: missing_at_Room_neq)
qed

lemma checkPlayer_not_Match: "checkPlayer v j \<noteq> Inl (Error (missing_at ''Match'' i f))"
proof
  assume a: "checkPlayer v j = Inl (Error (missing_at ''Match'' i f))"
  then have "require v ''Player'' j [''id'', ''roomId'', ''name''] =
      Inl (Error (missing_at ''Match'' i f))"
    by (simp add: checkPlayer_def split: if_splits)
  from require_Inl [OF this] show False
    by (auto simp: missing_at_Player_neq)
qed

lemma forEach_if_array_Inl:
  "forEach_if_array c v = Inl e \<Longrightarrow> \<exists>xs j. v = JArr xs \<and> j < length xs \<and> c (xs ! j) j = Inl e"
proof -
  assume a: "forEach_if_array c v = Inl e"
  then obtain xs where v: "v = JArr xs" and "forEach c xs 0 = Inl e"
    by (cases v) (simp_all add: forEach_if_array_def)
  from forEach_Inl [OF this(2)] v show ?thesis by auto
qed

lemma checkMatch_score:
  assumes "checkMatch v j = Inl (Error (missing_at ''Match'' i f))"
    and "f = ''player1Score'' \<or> f = ''player2Score''"
  shows "j = i \<and> get v f = JUndefined"
proof (cases "require v ''Match'' j [''id'', ''roomId'', ''player1Id'', ''player2Id'']")
  case (Inl e)
  with assms(1) have "e = Error (missing_at ''Match'' i f)"
    by (simp add: checkMatch_def split: if_splits)
  with require_Inl [OF Inl] assms(2) show ?thesis
    by (auto simp: missing_at_Match_eq)
next
  case (Inr u)
  show ?thesis
  proof (cases "get v ''player1Score'' = JUndefined")
    case True
    with assms Inr show ?thesis
      by (auto simp: checkMatch_def missing_at_Match_eq split: if_splits)
  next
    case p1: False
    show ?thesis
    proof (cases "get v ''player2Score'' = JUndefined")
      case True
      with assms Inr p1 show ?thesis
        by (auto simp: checkMatch_def missing_at_Match_eq split: if_splits)
    next
      case False
      with assms(1) Inr p1
      have "require v ''Match'' j [''winnerId'', ''date''] = Inl (Error (missing_at ''Match'' i f))"
        by (simp add: checkMatch_def split: if_splits)
      from require_Inl [OF this] assms(2) show ?thesis
        by (auto simp: missing_at_Match_eq)
    qed
  qed
qed

lemma top_level_messages:
  "missing_at ''Match'' i f \<noteq> ''Invalid data format: Data must be an object''"
  "missing_at ''Match'' i f \<noteq> ''Invalid data format: Missing version''"
  "missing_at ''Match'' i f \<noteq> ''Invalid data format: Missing rooms or room''"
  "missing_at ''Match'' i f \<noteq> ''Invalid data format: Room is missing id''"
  "missing_at ''Match'' i f \<noteq> ''Invalid data format: Room is missing name''"
  by (simp_all add: missing_at_def)

lemma checkSingleRoom_not_Match: "checkSingleRoom v \<noteq> Inl (Error (missing_at ''Match'' i f))"
  using top_level_messages [of i f] by (auto simp: checkSingleRoom_def)

lemma score_error_only_if_undefined:
  assumes "validateImportData data = Inl (Error (missing_at ''Match'' i f))"
    and "f = ''player1Score'' \<or> f = ''player2Score''"
  shows "\<exists>ms. get data ''matches'' = JArr ms \<and> i < length ms \<and> get (ms ! i) f = JUndefined"
proof -
  let ?e = "Inl (Error (missing_at ''Match'' i f)) :: jserror + unit"
  have rooms: "forEach_if_array checkRoom (get data ''rooms'') \<noteq> ?e"
    using forEach_if_array_Inl [of checkRoom "get data ''rooms''"] checkRoom_not_Match by blast
  have players: "forEach_if_array checkPlayer (get data ''players'') \<noteq> ?e"
    using forEach_if_array_Inl [of checkPlayer "get data ''players''"] checkPlayer_not_Match
    by blast
  have "forEach_if_array checkMatch (get data ''matches'') = ?e"
    using assms(1) rooms players checkSingleRoom_not_Match [of "get data ''room''" i f]
      top_level_messages [of i f]
    by (auto simp: validateImportData_def split: if_splits sum.splits)
  from forEach_if_array_Inl [OF this] obtain ms j where
    ms: "get data ''matches'' = JArr ms" "j < length ms"
      "checkMatch (ms ! j) j = Inl (Error (missing_at ''Match'' i f))"
    by blast
  from checkMatch_score [OF ms(3) assms(2)] ms show ?thesis by auto
qed

text \<open>The error raised is the one of the first record, and of the first field, that fails.\<close>

lemma forEach_first:
  "j < length xs \<Longrightarrow> (\<forall>i<j. f (xs ! i) (n + i) = Inr ()) \<Longrightarrow> f (xs ! j) (n + j) = Inl e \<Longrightarrow>
   forEach f xs n = Inl e"
proof (induction xs arbitrary: j n)
  case Nil
  then show ?case by simp
next
  case (Cons x xs)
  show ?case
  proof (cases j)
    case 0
    with Cons.prems show ?thesis by simp
  next
    case (Suc j')
    from Cons.prems(2) Suc have x: "f x n = Inr ()" by auto
    have "forEach f xs (Suc n) = Inl e"
    proof (rule Cons.IH [of j'])
      show "j' < length xs" using Cons.prems(1) Suc by simp
      show "\<forall>i<j'. f (xs ! i) (Suc n + i) = Inr ()"
      proof (intro allI impI)
        fix i assume "i < j'"
        then have "Suc i < j" using Suc by simp
        with Cons.prems(2) have "f ((x # xs) ! Suc i) (n + Suc i) = Inr ()" by blast
        then show "f (xs ! i) (Suc n + i) = Inr ()" by simp
      qed
      show "f (xs ! j') (Suc n + j') = Inl e" using Cons.prems(3) Suc by simp
    qed
    with x show ?thesis by simp
  qed
qed

lemma require_first:
  "g \<in> set fs \<Longrightarrow> \<not> truthy (get v g) \<Longrightarrow>
   list_all (\<lambda>h. truthy (get v h)) (takeWhile (\<lambda>h. h \<noteq> g) fs) \<Longrightarrow>
   require v kind i fs = Inl (Error (missing_at kind i g))"
  by (induction fs) (auto split: if_splits)

lemma ex_bundle_valid: "validateImportData ex_bundle = Inr ()"
  by code_simp

section \<open>Properties of sorting and of the streak\<close>

lemma js_insert_newest:
  "js_insert newest_first x ys = insort_key (\<lambda>m. - date m) x ys"
  by (induction ys) (auto simp: newest_first_def)

lemma js_sort_newest: "js_sort newest_first xs = sort_key (\<lambda>m. - date m) xs"
  by (induction xs) (simp_all add: js_sort_def sort_key_def js_insert_newest)

lemma streak_loop_takeWhile:
  "streak_loop pid t ms c = c + length (takeWhile (\<lambda>m. (winnerId m = pid) = t) ms)"
  by (induction ms arbitrary: c) auto

lemma current_streak_spec: "current_streak pid ms = spec_streak pid ms"
  by (cases "sort_key (\<lambda>m. - date m) ms")
     (simp_all add: current_streak_def spec_streak_def js_sort_newest streak_loop_takeWhile Let_def)

lemma sort_four:
  assumes "date m1 < date m2" "date m2 < date m3" "date m3 < date m4"
  shows "js_sort newest_first [m1, m2, m3, m4] = [m4, m3, m2, m1]"
  using assms by (simp add: js_sort_def newest_first_def)

lemma set_js_insert: "set (js_insert cmp x ys) = insert x (set ys)"
  by (induction ys) auto

lemma mset_js_insert: "mset (js_insert cmp x ys) = add_mset x (mset ys)"
  by (induction ys) auto

lemma mset_js_sort: "mset (js_sort cmp xs) = mset xs"
  by (induction xs) (simp_all add: js_sort_def mset_js_insert)

lemma sorted_js_insert:
  assumes total: "\<And>a b. \<not> cmp a b \<le> 0 \<Longrightarrow> cmp b a \<le> 0"
    and trans: "\<And>a b c. cmp a b \<le> 0 \<Longrightarrow> cmp b c \<le> 0 \<Longrightarrow> cmp a c \<le> 0"
  shows "sorted_wrt (\<lambda>a b. cmp a b \<le> 0) ys \<Longrightarrow>
         sorted_wrt (\<lambda>a b. cmp a b \<le> 0) (js_insert cmp x ys)"
proof (induction ys)
  case Nil
  then show ?case by simp
next
  case (Cons y ys)
  from Cons.prems have tail: "sorted_wrt (\<lambda>a b. cmp a b \<le> 0) ys"
    and head: "\<And>z. z \<in> set ys \<Longrightarrow> cmp y z \<le> 0"
    by simp_all
  show ?case
  proof (cases "cmp x y \<le> 0")
    case True
    have "cmp x z \<le> 0" if "z \<in> set ys" for z
      using trans [OF True head [OF that]] .
    with True Cons.prems show ?thesis by simp
  next
    case False
    then have "cmp y x \<le> 0" by (rule total)
    with False head Cons.IH [OF tail] show ?thesis
      by (simp add: set_js_insert)
  qed
qed

lemma sorted_js_sort:
  assumes total: "\<And>a b. \<not> cmp a b \<le> 0 \<Longrightarrow> cmp b a \<le> 0"
    and trans: "\<And>a b c. cmp a b \<le> 0 \<Longrightarrow> cmp b c \<le> 0 \<Longrightarrow> cmp a c \<le> 0"
  shows "sorted_wrt (\<lambda>a b. cmp a b \<le> 0) (js_sort cmp xs)"
proof (induction xs)
  case Nil
  then show ?case by (simp add: js_sort_def)
next
  case (Cons x xs)
  have "sorted_wrt (\<lambda>a b. cmp a b \<le> 0) (js_insert cmp x (js_sort cmp xs))"
  proof (rule sorted_js_insert)
    fix a b show "\<not> cmp a b \<le> 0 \<Longrightarrow> cmp b a \<le> 0" by (rule total)
  next
    fix a b c show "cmp a b \<le> 0 \<Longrightarrow> cmp b c \<le> 0 \<Longrightarrow> cmp a c \<le> 0" by (rule trans)
  next
    show "sorted_wrt (\<lambda>a b. cmp a b \<le> 0) (js_sort cmp xs)" by (rule Cons.IH)
  qed
  then show ?case by (simp add: js_sort_def)
qed

lemma leaderboard_cmp_le: "leaderboard_cmp a b \<le> 0 \<longleftrightarrow> spec_ranks_before a b"
  by (auto simp: leaderboard_cmp_def spec_ranks_before_def)

lemma spec_ranks_total: "\<not> spec_ranks_before a b \<Longrightarrow> spec_ranks_before b a"
  unfolding spec_ranks_before_def by linarith

lemma spec_ranks_trans:
  "spec_ranks_before a b \<Longrightarrow> spec_ranks_before b c \<Longrightarrow> spec_ranks_before a c"
  unfolding spec_ranks_before_def by linarith

lemma sorted_leaderboard: "sorted_wrt spec_ranks_before (js_sort leaderboard_cmp xs)"
proof -
  have "sorted_wrt (\<lambda>a b. leaderboard_cmp a b \<le> 0) (js_sort leaderboard_cmp xs)"
  proof (rule sorted_js_sort)
    fix a b show "\<not> leaderboard_cmp a b \<le> 0 \<Longrightarrow> leaderboard_cmp b a \<le> 0"
      unfolding leaderboard_cmp_le by (rule spec_ranks_total)
  next
    fix a b c show "leaderboard_cmp a b \<le> 0 \<Longrightarrow> leaderboard_cmp b c \<le> 0 \<Longrightarrow> leaderboard_cmp a c \<le> 0"
      unfolding leaderboard_cmp_le by (rule spec_ranks_trans)
  qed
  then show ?thesis by (simp add: leaderboard_cmp_le)
qed

lemma win_percentage_values: "win_percentage 2 2 = 100" "win_percentage 2 3 = 67"
  by code_simp+

lemma entry_percentage:
  "e \<in> set (generateLeaderboardData ps ms) \<Longrightarrow>
   lb_winPercentage e = win_percentage (lb_wins e) (lb_matches e)"
proof -
  assume "e \<in> set (generateLeaderboardData ps ms)"
  then have "e \<in># mset (generateLeaderboardData ps ms)" by simp
  then have "e \<in> leaderboard_entry ms ` set ps"
    by (simp add: generateLeaderboardData_def mset_js_sort)
  then show ?thesis
    by (auto simp: leaderboard_entry_def calculatePlayerStats_def Let_def)
qed

section \<open>Accuracy of the arithmetic on doubles\<close>

lemma bitlen_bounds: "0 < n \<Longrightarrow> n < 2 ^ bitlen n \<and> 2 ^ bitlen n \<le> 2 * n"
proof (induction n rule: bitlen.induct)
  case (1 n)
  show ?case
  proof (cases "n div 2 = 0")
    case True
    with "1.prems" have "n = 1" by simp
    then show ?thesis by (simp add: bitlen.simps [of 1] bitlen.simps [of 0])
  next
    case False
    with "1.prems" have pos: "0 < n div 2" by simp
    from "1.IH" [OF _ pos] "1.prems"
    have ih: "n div 2 < 2 ^ bitlen (n div 2)" "2 ^ bitlen (n div 2) \<le> 2 * (n div 2)"
      by simp_all
    have b: "bitlen n = Suc (bitlen (n div 2))"
      using "1.prems" by (subst bitlen.simps) simp
    from ih show ?thesis unfolding b by (simp; linarith)
  qed
qed

lemma round_div_error:
  assumes "0 < d"
  shows "\<bar>of_int (round_div n d) - (of_int n / of_int d :: rat)\<bar> \<le> 1 / 2"
proof -
  define q r where "q = n div d" and "r = n mod d"
  have n: "n = q * d + r" and r: "0 \<le> r" "r < d"
    using assms by (simp_all add: q_def r_def)
  have dpos: "(0::rat) < of_int d" using assms by simp
  have frac: "(of_int n / of_int d :: rat) = of_int q + of_int r / of_int d"
    using dpos by (simp add: n field_simps)
  have r0: "(0::rat) \<le> of_int r / of_int d" using r dpos by simp
  have r1: "(of_int r / of_int d :: rat) < 1" using r dpos by simp
  consider "2 * r < d" | "d < 2 * r" | "2 * r = d" by linarith
  then show ?thesis
  proof cases
    case 1
    then have "round_div n d = q" by (simp add: round_div_def q_def r_def Let_def)
    moreover from 1 have "(of_int r / of_int d :: rat) \<le> 1 / 2"
      using dpos by (simp add: field_simps)
    ultimately show ?thesis using frac r0 by simp
  next
    case 2
    then have "round_div n d = q + 1" by (simp add: round_div_def q_def r_def Let_def)
    moreover from 2 have "(1 / 2 :: rat) \<le> of_int r / of_int d"
      using dpos by (simp add: field_simps)
    ultimately show ?thesis using frac r1 by simp
  next
    case 3
    then have "round_div n d = q \<or> round_div n d = q + 1"
      by (simp add: round_div_def q_def r_def Let_def)
    moreover from 3 have "(of_int r / of_int d :: rat) = 1 / 2"
      using dpos by (simp add: field_simps)
    ultimately show ?thesis using frac by auto
  qed
qed

lemma scale_ratio:
  assumes "b \<noteq> 0"
  shows "(of_int (scale_num a k) / of_int (scale_den b k) :: rat) =
         of_int a / of_int b * power_int 2 k"
proof (cases "0 \<le> k")
  case True
  then show ?thesis by (simp add: scale_num_def scale_den_def power_int_def)
next
  case False
  then show ?thesis
    using assms by (simp add: scale_num_def scale_den_def power_int_def field_simps)
qed

lemma scale_den_pos: "0 < b \<Longrightarrow> 0 < scale_den b k"
  by (simp add: scale_den_def)

lemma scale_num_nonneg: "0 \<le> a \<Longrightarrow> 0 \<le> scale_num a k"
  by (simp add: scale_num_def)

lemma round_div_nonneg: "0 \<le> n \<Longrightarrow> 0 < d \<Longrightarrow> 0 \<le> round_div n d"
  by (auto simp: round_div_def Let_def pos_imp_zdiv_nonneg_iff)

lemma dval_zero: "dval (0, 0) = 0"
  by (simp add: dval_def)

text \<open>
  For positive \<open>a\<close> and \<open>b\<close>, \<open>fl_ratio\<close> scales the quotient by a power of two into
  the interval from \<open>2 ^ 52\<close> to \<open>2 ^ 53\<close> and rounds it there.
\<close>

lemma fl_ratio_scaled:
  assumes apos: "0 < a" and b: "0 < b"
  obtains k m where
    "fl_ratio a b = (if m = 2 ^ 53 then (2 ^ 52, 1 - k) else (m, - k))"
    "m = round_div (scale_num a k) (scale_den b k)"
    "2 ^ 52 \<le> (of_int a / of_int b :: rat) * power_int 2 k"
    "(of_int a / of_int b :: rat) * power_int 2 k < 2 ^ 53"
proof -
  define k1 where "k1 = 52 - int (bitlen a) + int (bitlen b)"
  define k where "k = (if 2 ^ 52 * scale_den b k1 \<le> scale_num a k1 then k1 else k1 + 1)"
  define m where "m = round_div (scale_num a k) (scale_den b k)"
  define q :: rat where "q = of_int a / of_int b"
  have fl: "fl_ratio a b = (if m = 2 ^ 53 then (2 ^ 52, 1 - k) else (m, - k))"
    using apos unfolding fl_ratio_def Let_def m_def k_def k1_def by simp
  have S1: "(of_int (scale_num a k1) / of_int (scale_den b k1) :: rat) = q * power_int 2 k1"
    using b by (simp add: scale_ratio q_def)
  have dpos: "(0::rat) < of_int (scale_den b k1)"
    using scale_den_pos [OF b] by simp
  have bpos: "(0::rat) < of_int b" using b by simp
  have apos': "(0::rat) < of_int a" using apos by simp
  from bitlen_bounds [OF apos] have "2 ^ bitlen a \<le> 2 * a" "a < 2 ^ bitlen a" by simp_all
  then have "(of_int (2 ^ bitlen a) :: rat) \<le> of_int (2 * a)"
    "(of_int a :: rat) < of_int (2 ^ bitlen a)"
    by (simp_all only: of_int_le_iff of_int_less_iff)
  then have al: "(2 ^ bitlen a :: rat) \<le> 2 * of_int a" and au: "(of_int a :: rat) < 2 ^ bitlen a"
    by simp_all
  from bitlen_bounds [OF b] have "b < 2 ^ bitlen b" "2 ^ bitlen b \<le> 2 * b" by simp_all
  then have "(of_int b :: rat) < of_int (2 ^ bitlen b)"
    "(of_int (2 ^ bitlen b) :: rat) \<le> of_int (2 * b)"
    by (simp_all only: of_int_le_iff of_int_less_iff)
  then have bu: "(of_int b :: rat) < 2 ^ bitlen b" and bl: "(2 ^ bitlen b :: rat) \<le> 2 * of_int b"
    by simp_all
  have P1: "power_int (2::rat) k1 = 2 ^ (52 + bitlen b) / 2 ^ bitlen a"
  proof -
    have "k1 = int (52 + bitlen b) - int (bitlen a)" by (simp add: k1_def)
    then show ?thesis
      by (simp only:) (subst power_int_diff, simp_all add: power_int_of_nat del: of_nat_add)
  qed
  have P2: "power_int (2::rat) (k1 + 1) = 2 * power_int 2 k1"
    by (subst power_int_add) simp_all
  have low: "2 ^ 52 \<le> q * power_int 2 k"
  proof (cases "2 ^ 52 * scale_den b k1 \<le> scale_num a k1")
    case True
    then have kk: "k = k1" by (simp add: k_def)
    from True have "(of_int (2 ^ 52 * scale_den b k1) :: rat) \<le> of_int (scale_num a k1)"
      by (simp only: of_int_le_iff)
    then have "(2 ^ 52 :: rat) * of_int (scale_den b k1) \<le> of_int (scale_num a k1)"
      by simp
    with dpos have "(2 ^ 52 :: rat) \<le> of_int (scale_num a k1) / of_int (scale_den b k1)"
      by (simp add: pos_le_divide_eq)
    with S1 kk show ?thesis by simp
  next
    case False
    then have kk: "k = k1 + 1" by (simp add: k_def)
    have base: "(2 ^ bitlen a * of_int b :: rat) \<le> (2 * of_int a) * 2 ^ bitlen b"
      using al bu bpos apos' by (intro mult_mono) simp_all
    have "2 ^ 52 * (2 ^ bitlen a * of_int b) \<le> of_int a * (2 ^ 53 * 2 ^ bitlen b :: rat)"
      using base by (simp add: mult_ac)
    then have "(2 ^ 52 :: rat) \<le> of_int a * (2 ^ 53 * 2 ^ bitlen b) / (2 ^ bitlen a * of_int b)"
      using bpos by (subst pos_le_divide_eq) simp_all
    also have "\<dots> = q * power_int 2 k"
      by (simp add: q_def kk P2 P1 power_add)
    finally show ?thesis .
  qed
  have up: "q * power_int 2 k < 2 ^ 53"
  proof (cases "2 ^ 52 * scale_den b k1 \<le> scale_num a k1")
    case True
    then have kk: "k = k1" by (simp add: k_def)
    have base: "(of_int a * 2 ^ bitlen b :: rat) < 2 ^ bitlen a * (2 * of_int b)"
      using au bl bpos apos' by (intro mult_less_le_imp_less) simp_all
    have "of_int a * (2 ^ 52 * 2 ^ bitlen b) < 2 ^ 53 * (2 ^ bitlen a * of_int b :: rat)"
      using base by (simp add: mult_ac)
    then have "of_int a * (2 ^ 52 * 2 ^ bitlen b) / (2 ^ bitlen a * of_int b) < (2 ^ 53 :: rat)"
      using bpos by (subst pos_divide_less_eq) simp_all
    moreover have "of_int a * (2 ^ 52 * 2 ^ bitlen b) / (2 ^ bitlen a * of_int b) = q * power_int 2 k"
      by (simp add: q_def kk P1 power_add)
    ultimately show ?thesis by simp
  next
    case False
    then have kk: "k = k1 + 1" by (simp add: k_def)
    from False have "scale_num a k1 < 2 ^ 52 * scale_den b k1" by simp
    then have "(of_int (scale_num a k1) :: rat) < of_int (2 ^ 52 * scale_den b k1)"
      by (simp only: of_int_less_iff)
    then have "(of_int (scale_num a k1) :: rat) < 2 ^ 52 * of_int (scale_den b k1)"
      by simp
    with dpos have "(of_int (scale_num a k1) / of_int (scale_den b k1) :: rat) < 2 ^ 52"
      by (simp add: pos_divide_less_eq)
    then have "q * power_int 2 k1 < 2 ^ 52" by (simp only: S1)
    then show ?thesis by (simp add: kk P2)
  qed
  from fl m_def low up show ?thesis
    unfolding q_def by (rule that)
qed

text \<open>The result of \<open>fl_ratio\<close> is a normal double: its significand has 53 bits.\<close>

lemma fl_ratio_normal:
  assumes "0 < a" and b: "0 < b"
  shows "2 ^ 52 \<le> fst (fl_ratio a b) \<and> fst (fl_ratio a b) < 2 ^ 53"
proof -
  from fl_ratio_scaled [OF assms] obtain k m where
    fl: "fl_ratio a b = (if m = 2 ^ 53 then (2 ^ 52, 1 - k) else (m, - k))" and
    m: "m = round_div (scale_num a k) (scale_den b k)" and
    low: "2 ^ 52 \<le> (of_int a / of_int b :: rat) * power_int 2 k" and
    up: "(of_int a / of_int b :: rat) * power_int 2 k < 2 ^ 53"
    by blast
  have S: "(of_int (scale_num a k) / of_int (scale_den b k) :: rat) =
      of_int a / of_int b * power_int 2 k"
    using b by (simp add: scale_ratio)
  have mS: "\<bar>of_int m - of_int a / of_int b * power_int 2 k\<bar> \<le> (1 / 2 :: rat)"
    using round_div_error [OF scale_den_pos [OF b, of k], of "scale_num a k"]
    by (simp only: m S)
  have n52: "(2::rat) ^ 52 = of_int (2 ^ 52)" and n53: "(2::rat) ^ 53 = of_int (2 ^ 53)"
    by simp_all
  from mS low have "(of_int (2 ^ 52) :: rat) - 1 < of_int m"
    unfolding n52 by linarith
  then have "(of_int (2 ^ 52 - 1) :: rat) < of_int m" by simp
  then have l: "2 ^ 52 - 1 < m" by (simp only: of_int_less_iff)
  from mS up have "(of_int m :: rat) < of_int (2 ^ 53) + 1"
    unfolding n53 by linarith
  then have "(of_int m :: rat) < of_int (2 ^ 53 + 1)" by simp
  then have u: "m < 2 ^ 53 + 1" by (simp only: of_int_less_iff)
  from l u show ?thesis by (simp add: fl)
qed

lemma fl_ratio_error:
  assumes a: "0 \<le> a" and b: "0 < b"
  shows "\<bar>dval (fl_ratio a b) - of_int a / of_int b\<bar> \<le> (of_int a / of_int b) / 2 ^ 53 \<and>
         0 \<le> fst (fl_ratio a b)"
proof (cases "a = 0")
  case True
  then show ?thesis by (simp add: fl_ratio_def dval_def)
next
  case False
  with a have apos: "0 < a" by simp
  define q :: rat where "q = of_int a / of_int b"
  from fl_ratio_scaled [OF apos b] obtain k m where
    fl: "fl_ratio a b = (if m = 2 ^ 53 then (2 ^ 52, 1 - k) else (m, - k))" and
    m_def: "m = round_div (scale_num a k) (scale_den b k)" and
    low': "2 ^ 52 \<le> (of_int a / of_int b :: rat) * power_int 2 k"
    by blast
  define P :: rat where "P = power_int 2 k"
  define Pinv :: rat where "Pinv = power_int 2 (- k)"
  have Ppos: "0 < P" "0 < Pinv" by (simp_all add: P_def Pinv_def zero_less_power_int)
  have PP: "P * Pinv = 1" by (simp add: P_def Pinv_def power_int_minus)
  have low: "2 ^ 52 \<le> q * P" using low' by (simp only: q_def P_def)
  have S: "(of_int (scale_num a k) / of_int (scale_den b k) :: rat) = q * P"
    using b by (simp add: scale_ratio q_def P_def)
  have mS: "\<bar>of_int m - q * P\<bar> \<le> 1 / 2"
    using round_div_error [OF scale_den_pos [OF b, of k], of "scale_num a k"]
    by (simp add: m_def S)
  have mnn: "0 \<le> m"
    unfolding m_def
    by (rule round_div_nonneg [OF scale_num_nonneg scale_den_pos]) (use a b in simp_all)
  have val: "dval (fl_ratio a b) = of_int m * Pinv"
  proof (cases "m = 2 ^ 53")
    case True
    have "power_int (2::rat) (1 - k) = 2 * Pinv"
      unfolding Pinv_def by (subst power_int_diff) (simp_all add: power_int_minus field_simps)
    with True show ?thesis by (simp add: fl dval_def)
  next
    case False
    then show ?thesis by (simp add: fl dval_def Pinv_def)
  qed
  have qv: "(q * P) * Pinv = q"
  proof -
    have "(q * P) * Pinv = q * (P * Pinv)" by (simp only: mult.assoc)
    also have "\<dots> = q" by (simp only: PP mult_1_right)
    finally show ?thesis .
  qed
  have "(of_int m - q * P) * Pinv = of_int m * Pinv - (q * P) * Pinv"
    by (simp only: left_diff_distrib)
  also have "\<dots> = dval (fl_ratio a b) - q"
    by (simp only: val qv)
  finally have "\<bar>dval (fl_ratio a b) - q\<bar> = \<bar>(of_int m - q * P) * Pinv\<bar>"
    by simp
  also have "\<dots> = \<bar>of_int m - q * P\<bar> * Pinv"
    using Ppos by (simp add: abs_mult)
  also have "\<dots> \<le> (1 / 2) * Pinv"
    using mS Ppos by (intro mult_right_mono) simp_all
  also have "\<dots> \<le> (1 / 2) * (q / 2 ^ 52)"
  proof -
    have "2 ^ 52 * Pinv \<le> (q * P) * Pinv"
      using low Ppos by (intro mult_right_mono) simp_all
    then have "2 ^ 52 * Pinv \<le> q" by (simp only: qv)
    then have "Pinv \<le> q / 2 ^ 52" by (simp add: pos_le_divide_eq mult.commute)
    then show ?thesis by simp
  qed
  also have "\<dots> = q / 2 ^ 53" by simp
  finally have "\<bar>dval (fl_ratio a b) - q\<bar> \<le> q / 2 ^ 53" .
  moreover have "0 \<le> fst (fl_ratio a b)" using mnn by (simp add: fl)
  ultimately show ?thesis by (simp add: q_def)
qed

lemma Math_round_error:
  assumes "0 \<le> fst x"
  shows "\<bar>of_int (Math_round x) - dval x\<bar> \<le> 1 / 2 \<and> 0 \<le> Math_round x"
proof -
  obtain m e where x: "x = (m, e)" by (cases x)
  with assms have m: "0 \<le> m" by simp
  show ?thesis
  proof (cases "0 \<le> e")
    case True
    with m show ?thesis by (simp add: x Math_round_def dval_def power_int_def)
  next
    case False
    define k where "k = nat (- e)"
    have mr: "Math_round x = (2 * m + 2 ^ k) div 2 ^ (k + 1)"
      using False by (simp add: x Math_round_def k_def)
    have dv: "dval x = of_int m / 2 ^ k"
      using False by (simp add: x dval_def power_int_def k_def field_simps)
    have "(of_int (Math_round x) :: rat) = of_int \<lfloor>(of_int (2 * m + 2 ^ k) :: rat) / of_int (2 ^ (k + 1))\<rfloor>"
      unfolding mr by (simp only: floor_divide_of_int_eq)
    also have "(of_int (2 * m + 2 ^ k) :: rat) / of_int (2 ^ (k + 1)) = dval x + 1 / 2"
      by (simp add: dv field_simps)
    finally have fl: "(of_int (Math_round x) :: rat) = of_int \<lfloor>dval x + 1 / 2\<rfloor>" .
    have "of_int \<lfloor>dval x + 1 / 2\<rfloor> \<le> dval x + 1 / 2"
      by (rule of_int_floor_le)
    moreover have "dval x + 1 / 2 < of_int \<lfloor>dval x + 1 / 2\<rfloor> + 1"
      using floor_correct [of "dval x + 1 / 2"] by simp
    ultimately have "\<bar>of_int (Math_round x) - dval x\<bar> \<le> 1 / 2"
      unfolding fl by linarith
    moreover have "0 \<le> Math_round x"
      unfolding mr using m by (simp add: pos_imp_zdiv_nonneg_iff)
    ultimately show ?thesis by simp
  qed
qed

lemma js_times_error:
  assumes "0 \<le> fst x" and "0 \<le> c"
  shows "\<bar>dval (js_times x c) - of_int c * dval x\<bar> \<le> of_int c * dval x / 2 ^ 53 \<and>
         0 \<le> fst (js_times x c)"
proof -
  obtain m e where x: "x = (m, e)" by (cases x)
  with assms have m: "0 \<le> m * c" by simp
  have r: "(of_int (scale_num (m * c) e) / of_int (scale_den 1 e) :: rat) = of_int c * dval x"
    by (subst scale_ratio) (simp_all add: x dval_def)
  from fl_ratio_error [OF scale_num_nonneg [OF m, of e] scale_den_pos [of 1 e]]
  show ?thesis
    by (simp add: x js_times_def r del: of_int_mult)
qed

lemma rounding_chain:
  fixes q v1 v2 h v :: rat
  assumes "\<bar>v1 - q\<bar> \<le> q / 2 ^ 53" "\<bar>v2 - 100 * v1\<bar> \<le> 100 * v1 / 2 ^ 53"
    "\<bar>h - v2\<bar> \<le> 1 / 2" "\<bar>v - h / 100\<bar> \<le> h / 100 / 2 ^ 53" "0 \<le> q"
  shows "\<bar>v - q\<bar> \<le> 1 / 200 + (q + 1) / 2 ^ 51"
proof -
  have n53: "(2::rat) ^ 53 = 9007199254740992" and n51: "(2::rat) ^ 51 = 2251799813685248"
    by simp_all
  have "(q + 1) / 2251799813685248 = q / 2251799813685248 + 1 / (2251799813685248::rat)"
    by (simp add: add_divide_distrib)
  moreover have "100 * v1 / 9007199254740992 = 100 * (v1 / (9007199254740992::rat))"
    by simp
  moreover have "h / 100 / 9007199254740992 = (h / 100) / (9007199254740992::rat)"
    by simp
  ultimately show ?thesis
    using assms unfolding n53 n51 by linarith
qed

lemma win_loss_ratio_error:
  assumes "0 < l"
  shows "\<exists>d. win_loss_ratio w l = Finite d \<and>
           d = js_divide (Math_round (js_times (js_divide (int w) (int l)) 100)) 100 \<and>
           \<bar>dval d - of_nat w / of_nat l\<bar> \<le> 1 / 200 + (of_nat w / of_nat l + 1) / 2 ^ 51"
proof -
  define q :: rat where "q = of_nat w / of_nat l"
  define d1 where "d1 = js_divide (int w) (int l)"
  define d2 where "d2 = js_times d1 100"
  define h where "h = Math_round d2"
  define d where "d = js_divide h 100"
  have q0: "0 \<le> q" by (simp add: q_def)
  have e1: "\<bar>dval d1 - q\<bar> \<le> q / 2 ^ 53" and n1: "0 \<le> fst d1"
    using fl_ratio_error [of "int w" "int l"] assms by (simp_all add: d1_def js_divide_def q_def)
  have e2: "\<bar>dval d2 - 100 * dval d1\<bar> \<le> 100 * dval d1 / 2 ^ 53" and n2: "0 \<le> fst d2"
    using js_times_error [OF n1, of 100] by (simp_all add: d2_def)
  have e3: "\<bar>of_int h - dval d2\<bar> \<le> 1 / 2" and n3: "0 \<le> h"
    using Math_round_error [OF n2] by (simp_all add: h_def)
  have e4: "\<bar>dval d - of_int h / 100\<bar> \<le> (of_int h / 100) / 2 ^ 53"
    using fl_ratio_error [OF n3, of 100] by (simp add: d_def js_divide_def)
  have "\<bar>dval d - q\<bar> \<le> 1 / 200 + (q + 1) / 2 ^ 51"
    using e1 e2 e3 e4 q0 by (rule rounding_chain)
  moreover have "win_loss_ratio w l = Finite d"
    using assms by (simp add: win_loss_ratio_def d_def h_def d2_def d1_def)
  ultimately show ?thesis
    by (simp add: q_def d_def h_def d2_def d1_def)
qed

section \<open>The statistics of the examples\<close>

lemma ex_db_stats:
  "getPlayerStats ex_store ''p1'' =
     Inr \<lparr>db_matches = 1, db_wins = 1, db_losses = 0, db_winPercentage = 100,
          db_currentStreak = 1, db_isWinningStreak = True\<rparr>"
  by code_simp

lemma ex_db_matches: "map match_id (getPlayerMatches ex_store2 ''p1'') = [''m1'', ''m2'', ''m3'']"
  by code_simp

lemma ex_league:
  "generateLeaderboardData ex_league_players ex_league_matches =
     [\<lparr>lb_id = ''ann'', lb_name = ''Ann'', lb_matches = 2, lb_wins = 2, lb_losses = 0,
       lb_winPercentage = 100, lb_currentStreak = 2, lb_isWinningStreak = True\<rparr>,
      \<lparr>lb_id = ''bob'', lb_name = ''Bob'', lb_matches = 3, lb_wins = 2, lb_losses = 1,
       lb_winPercentage = 67, lb_currentStreak = 1, lb_isWinningStreak = False\<rparr>,
      \<lparr>lb_id = ''cy'', lb_name = ''Cy'', lb_matches = 5, lb_wins = 1, lb_losses = 4,
       lb_winPercentage = 20, lb_currentStreak = 1, lb_isWinningStreak = True\<rparr>]"
  by code_simp

lemma ex_ratio_stats:
  "calculatePlayerStats (ex_player ''ann'' ''Ann'') ex_ratio_matches =
     \<lparr>st_matches = 4, st_wins = 1, st_losses = 3, st_winPercentage = 25,
      st_currentStreak = 3, st_isWinningStreak = False,
      st_winLossRatio = Finite (5944751508129055, - 54)\<rparr>"
  by code_simp

lemma ex_unbeaten_stats:
  "calculatePlayerStats (ex_player ''ann'' ''Ann'') ex_league_matches =
     \<lparr>st_matches = 2, st_wins = 2, st_losses = 0, st_winPercentage = 100,
      st_currentStreak = 2, st_isWinningStreak = True, st_winLossRatio = Infinity\<rparr>"
  by code_simp

lemma ex_no_matches_stats:
  "calculatePlayerStats (ex_player ''ann'' ''Ann'') [] =
     \<lparr>st_matches = 0, st_wins = 0, st_losses = 0, st_winPercentage = 0,
      st_currentStreak = 0, st_isWinningStreak = False, st_winLossRatio = Finite (0, 0)\<rparr>"
  by code_simp

lemma ex_streak_stats:
  "calculatePlayerStats (ex_player ''ann'' ''Ann'') ex_streak_matches =
     \<lparr>st_matches = 4, st_wins = 3, st_losses = 1, st_winPercentage = 75,
      st_currentStreak = 1, st_isWinningStreak = True,
      st_winLossRatio = Finite (js_divide 300 100)\<rparr>"
  by code_simp

text \<open>The fields of the statistics in terms of the matches.\<close>

lemma stats_fields:
  "st_winLossRatio (calculatePlayerStats p ms) =
     win_loss_ratio (st_wins (calculatePlayerStats p ms)) (st_losses (calculatePlayerStats p ms))"
  "st_winPercentage (calculatePlayerStats p ms) =
     win_percentage (st_wins (calculatePlayerStats p ms)) (st_matches (calculatePlayerStats p ms))"
  "st_wins (calculatePlayerStats p ms) =
     length (filter (\<lambda>m. (player1Id m = player_id p \<or> player2Id m = player_id p) \<and>
                          winnerId m = player_id p) ms)"
  "st_losses (calculatePlayerStats p ms) =
     length (filter (\<lambda>m. (player1Id m = player_id p \<or> player2Id m = player_id p) \<and>
                          winnerId m \<noteq> player_id p) ms)"
  "st_matches (calculatePlayerStats p ms) =
     st_wins (calculatePlayerStats p ms) + st_losses (calculatePlayerStats p ms)"
proof -
  let ?pm = "filter (\<lambda>m. player1Id m = player_id p \<or> player2Id m = player_id p) ms"
  have split: "length (filter (\<lambda>m. winnerId m = player_id p) ?pm) +
        length (filter (\<lambda>m. winnerId m \<noteq> player_id p) ?pm) = length ?pm"
    by (rule sum_length_filter_compl)
  have w: "filter (\<lambda>m. winnerId m = player_id p) ?pm =
      filter (\<lambda>m. (player1Id m = player_id p \<or> player2Id m = player_id p) \<and>
                          winnerId m = player_id p) ms"
    by (simp add: conj_commute)
  have l: "filter (\<lambda>m. winnerId m \<noteq> player_id p) ?pm =
      filter (\<lambda>m. (player1Id m = player_id p \<or> player2Id m = player_id p) \<and>
                          winnerId m \<noteq> player_id p) ms"
    by (simp add: conj_commute)
  show "st_winLossRatio (calculatePlayerStats p ms) =
     win_loss_ratio (st_wins (calculatePlayerStats p ms)) (st_losses (calculatePlayerStats p ms))"
    by (simp add: calculatePlayerStats_def Let_def)
  show "st_winPercentage (calculatePlayerStats p ms) =
     win_percentage (st_wins (calculatePlayerStats p ms)) (st_matches (calculatePlayerStats p ms))"
    by (simp add: calculatePlayerStats_def Let_def)
  show ws: "st_wins (calculatePlayerStats p ms) =
     length (filter (\<lambda>m. (player1Id m = player_id p \<or> player2Id m = player_id p) \<and>
                          winnerId m = player_id p) ms)"
    unfolding w [symmetric] by (simp add: calculatePlayerStats_def Let_def)
  have "st_losses (calculatePlayerStats p ms) =
      length ?pm - length (filter (\<lambda>m. winnerId m = player_id p) ?pm)"
    by (simp add: calculatePlayerStats_def Let_def)
  also have "\<dots> = length (filter (\<lambda>m. winnerId m \<noteq> player_id p) ?pm)"
    using split by linarith
  finally show ls: "st_losses (calculatePlayerStats p ms) =
     length (filter (\<lambda>m. (player1Id m = player_id p \<or> player2Id m = player_id p) \<and>
                          winnerId m \<noteq> player_id p) ms)"
    unfolding l .
  have "st_matches (calculatePlayerStats p ms) = length ?pm"
    by (simp add: calculatePlayerStats_def Let_def)
  then show "st_matches (calculatePlayerStats p ms) =
     st_wins (calculatePlayerStats p ms) + st_losses (calculatePlayerStats p ms)"
    unfolding ws ls w [symmetric] l [symmetric] using split by simp
qed

section \<open>The win percentage and the entries of the leaderboard\<close>

lemma percentage_chain:
  fixes q v1 v2 h :: rat
  assumes "\<bar>v1 - q\<bar> \<le> q / 2 ^ 53" "\<bar>v2 - 100 * v1\<bar> \<le> 100 * v1 / 2 ^ 53"
    "\<bar>h - v2\<bar> \<le> 1 / 2" "0 \<le> q"
  shows "\<bar>h - 100 * q\<bar> \<le> 1 / 2 + q / 2 ^ 45"
proof -
  have n53: "(2::rat) ^ 53 = 9007199254740992" and n45: "(2::rat) ^ 45 = 35184372088832"
    by simp_all
  have "100 * v1 / 9007199254740992 = 100 * (v1 / (9007199254740992::rat))"
    by simp
  then show ?thesis
    using assms unfolding n53 n45 by linarith
qed

lemma win_percentage_error:
  assumes "0 < n"
  shows "win_percentage w n = Math_round (js_times (js_divide (int w) (int n)) 100) \<and>
         \<bar>of_int (win_percentage w n) - 100 * (of_nat w / of_nat n :: rat)\<bar>
           \<le> 1 / 2 + (of_nat w / of_nat n) / 2 ^ 45"
proof -
  define q :: rat where "q = of_nat w / of_nat n"
  define d1 where "d1 = js_divide (int w) (int n)"
  define d2 where "d2 = js_times d1 100"
  have wp: "win_percentage w n = Math_round d2"
    using assms by (simp add: win_percentage_def d2_def d1_def)
  have q0: "0 \<le> q" by (simp add: q_def)
  have e1: "\<bar>dval d1 - q\<bar> \<le> q / 2 ^ 53" and n1: "0 \<le> fst d1"
    using fl_ratio_error [of "int w" "int n"] assms by (simp_all add: d1_def js_divide_def q_def)
  have e2: "\<bar>dval d2 - 100 * dval d1\<bar> \<le> 100 * dval d1 / 2 ^ 53" and n2: "0 \<le> fst d2"
    using js_times_error [OF n1, of 100] by (simp_all add: d2_def)
  have e3: "\<bar>of_int (Math_round d2) - dval d2\<bar> \<le> 1 / 2"
    using Math_round_error [OF n2] by simp
  have "\<bar>of_int (Math_round d2) - 100 * q\<bar> \<le> 1 / 2 + q / 2 ^ 45"
    using e1 e2 e3 q0 by (rule percentage_chain)
  then show ?thesis
    unfolding wp by (simp add: q_def d2_def d1_def)
qed

lemma leaderboard_entry_eq:
  "leaderboard_entry ms p =
     (let pm = filter (\<lambda>m. player1Id m = player_id p \<or> player2Id m = player_id p) ms;
          w = length (filter (\<lambda>m. winnerId m = player_id p) pm)
      in \<lparr>lb_id = player_id p, lb_name = player_name p,
          lb_matches = length pm, lb_wins = w, lb_losses = length pm - w,
          lb_winPercentage = win_percentage w (length pm),
          lb_currentStreak = fst (spec_streak (player_id p) pm),
          lb_isWinningStreak = snd (spec_streak (player_id p) pm)\<rparr>)"
  by (simp add: leaderboard_entry_def calculatePlayerStats_def Let_def current_streak_spec)


section \<open>The winner of a match\<close>

text \<open>
  Claim C1, as amended. \<open>createMatch\<close> with a fresh id stores a match whose scores are the
  two inputs read by \<open>parseInt\<close> and whose winner is one of its two players. When both
  stored scores are numbers (neither is \<open>NaN\<close>) and they differ, the winner is the side
  with the strictly greater score.
\<close>

theorem createMatch_winner:
  assumes "os_get match_id newId (matches s) = None"
  shows "\<exists>m s'. createMatch s md newId now = Inr (m, s') \<and>
           os_get match_id newId (matches s') = Some m \<and>
           player1Id m = md_player1Id md \<and> player2Id m = md_player2Id md \<and>
           player1Score m = parseInt (md_player1Score md) \<and>
           player2Score m = parseInt (md_player2Score md) \<and>
           winnerId m \<in> {player1Id m, player2Id m} \<and>
           (player1Score m \<noteq> NaN \<and> player2Score m \<noteq> NaN \<and>
            player1Score m \<noteq> player2Score m \<longrightarrow> winner_has_greater_score m)"
proof -
  let ?p1 = "parseInt (md_player1Score md)" and ?p2 = "parseInt (md_player2Score md)"
  let ?m = "\<lparr>match_id = newId, match_roomId = md_roomId md,
              player1Id = md_player1Id md, player2Id = md_player2Id md,
              player1Score = ?p1, player2Score = ?p2,
              winnerId = (if js_gt ?p1 ?p2 then md_player1Id md else md_player2Id md),
              match_notes = or_empty (md_notes md), date = now\<rparr>"
  have add: "os_add match_id ?m (matches s) = Inr (os_put match_id ?m (matches s))"
    using assms by (simp add: os_add_def)
  have cm: "createMatch s md newId now = Inr (?m, s\<lparr>matches := os_put match_id ?m (matches s)\<rparr>)"
    by (simp add: createMatch_def Let_def add)
  have got: "os_get match_id newId (os_put match_id ?m (matches s)) = Some ?m"
    using os_get_put_same [of match_id ?m "matches s"] by simp
  have win: "?p1 \<noteq> NaN \<and> ?p2 \<noteq> NaN \<and> ?p1 \<noteq> ?p2 \<longrightarrow> winner_has_greater_score ?m"
    using js_gt_total [of ?p1 ?p2] by (auto simp: winner_has_greater_score_def)
  show ?thesis
    using cm got win
    by (intro exI [of _ ?m] exI [of _ "s\<lparr>matches := os_put match_id ?m (matches s)\<rparr>"]) simp
qed

theorem createMatch_winner_witness:
  "os_get match_id ''m1'' (matches empty_store) = None \<and>
   (\<exists>m s'. createMatch empty_store
        \<lparr>md_roomId = ''r1'', md_player1Id = ''ann'', md_player2Id = ''bob'',
         md_player1Score = ''11'', md_player2Score = ''9'', md_notes = None\<rparr> ''m1'' 0 = Inr (m, s') \<and>
      player1Score m = Fin 11 \<and> player2Score m = Fin 9 \<and> winnerId m = ''ann'' \<and>
      winner_has_greater_score m)"
proof -
  have h: "os_get match_id ''m1'' (matches empty_store) = None"
    by (simp add: empty_store_def os_get_def)
  from createMatch_winner [OF h, of
      "\<lparr>md_roomId = ''r1'', md_player1Id = ''ann'', md_player2Id = ''bob'',
        md_player1Score = ''11'', md_player2Score = ''9'', md_notes = None\<rparr>" 0]
  obtain m s' where m: "createMatch empty_store
        \<lparr>md_roomId = ''r1'', md_player1Id = ''ann'', md_player2Id = ''bob'',
         md_player1Score = ''11'', md_player2Score = ''9'', md_notes = None\<rparr> ''m1'' 0 = Inr (m, s')"
      "player1Id m = ''ann''" "player2Id m = ''bob''"
      "player1Score m = Fin 11" "player2Score m = Fin 9"
      "player1Score m \<noteq> NaN \<and> player2Score m \<noteq> NaN \<and>
       player1Score m \<noteq> player2Score m \<longrightarrow> winner_has_greater_score m"
    by (auto simp: parseInt_examples)
  from m(4,5,6) have w: "winner_has_greater_score m" by simp
  with m(2,3,4,5) have "winnerId m = ''ann''"
    by (auto simp: winner_has_greater_score_def)
  with h m w show ?thesis by blast
qed

text \<open>
  Claim C1 as stated fails where a score does not parse: with the inputs \<open>7\<close> and \<open>.5\<close> the
  stored scores are \<open>7\<close> and \<open>NaN\<close>, which differ, and the winner is the second player,
  whose score is not greater than the first player's.
\<close>

theorem createMatch_winner_counterexample:
  "createMatch empty_store
     \<lparr>md_roomId = ''r1'', md_player1Id = ''ann'', md_player2Id = ''bob'',
      md_player1Score = ''7'', md_player2Score = ''.5'', md_notes = None\<rparr> ''m1'' 0
   = Inr (\<lparr>match_id = ''m1'', match_roomId = ''r1'', player1Id = ''ann'', player2Id = ''bob'',
           player1Score = Fin 7, player2Score = NaN, winnerId = ''bob'',
           match_notes = [], date = 0\<rparr>,
         \<lparr>rooms = [], players = [],
          matches = [\<lparr>match_id = ''m1'', match_roomId = ''r1'', player1Id = ''ann'',
                      player2Id = ''bob'', player1Score = Fin 7, player2Score = NaN,
                      winnerId = ''bob'', match_notes = [], date = 0\<rparr>],
          settings = []\<rparr>) \<and>
   Fin 7 \<noteq> NaN \<and>
   \<not> winner_has_greater_score
       \<lparr>match_id = ''m1'', match_roomId = ''r1'', player1Id = ''ann'', player2Id = ''bob'',
        player1Score = Fin 7, player2Score = NaN, winnerId = ''bob'',
        match_notes = [], date = 0\<rparr>"
  by (simp add: createMatch_def empty_store_def os_add_def os_get_def parseInt_examples
      or_empty_def Let_def winner_has_greater_score_def)

section \<open>Export followed by import\<close>

text \<open>
  Claim C2. The claim does not hold of the code. A store may hold a player whose room is
  not stored: \<open>createPlayer\<close> does not look the room up, and the empty store with the
  player \<open>p1\<close> of room \<open>r1\<close> added is such a store. \<open>exportAllData\<close> reads the rooms and
  the settings with \<open>getAll\<close> but gathers the players and the matches room by room,
  so this player is in no list of the export, and importing the export into the empty
  store gives the empty store: the player \<open>p1\<close> of the original store is not in it.
\<close>

theorem exportAllData_drops_orphan:
  "createPlayer empty_store \<lparr>pd_roomId = ''r1'', pd_name = ''Ann'', pd_nickname = None\<rparr> ''p1'' 0 0 =
     Inr (\<lparr>player_id = ''p1'', player_roomId = ''r1'', player_name = ''Ann'',
            player_nickname = [], player_createdAt = 0, player_updatedAt = 0\<rparr>,
          \<lparr>rooms = [],
           players = [\<lparr>player_id = ''p1'', player_roomId = ''r1'', player_name = ''Ann'',
                       player_nickname = [], player_createdAt = 0, player_updatedAt = 0\<rparr>],
           matches = [], settings = []\<rparr>) \<and>
   data_players (exportAllData
       \<lparr>rooms = [],
        players = [\<lparr>player_id = ''p1'', player_roomId = ''r1'', player_name = ''Ann'',
                    player_nickname = [], player_createdAt = 0, player_updatedAt = 0\<rparr>],
        matches = [], settings = []\<rparr> 1) = Some [] \<and>
   importData (exportAllData
       \<lparr>rooms = [],
        players = [\<lparr>player_id = ''p1'', player_roomId = ''r1'', player_name = ''Ann'',
                    player_nickname = [], player_createdAt = 0, player_updatedAt = 0\<rparr>],
        matches = [], settings = []\<rparr> 1) empty_store
     = Inr \<lparr>rooms = [], players = [], matches = [], settings = []\<rparr> \<and>
   getPlayer \<lparr>rooms = [],
        players = [\<lparr>player_id = ''p1'', player_roomId = ''r1'', player_name = ''Ann'',
                    player_nickname = [], player_createdAt = 0, player_updatedAt = 0\<rparr>],
        matches = [], settings = []\<rparr> ''p1'' \<noteq> None \<and>
   getPlayer \<lparr>rooms = [], players = [], matches = [], settings = []\<rparr> ''p1'' = None"
  by (simp add: createPlayer_def empty_store_def os_add_def os_get_def or_empty_def Let_def
      importData_def exportAllData_def getAllRooms_def put_all_def getPlayer_def
      getPlayersInRoom_def getMatchesInRoom_def)

text \<open>
  What the code does achieve: on a well-formed store in which every player and every
  match belongs to a stored room, the import of the export into the empty store is the
  store itself.
\<close>

lemma import_export_intact:
  assumes "store_wf s" and "rooms_exist s"
  shows "importData (exportAllData s now) empty_store = Inr s"
proof -
  have wf: "os_wf room_id (rooms s)" "os_wf player_id (players s)"
    "os_wf match_id (matches s)" "os_wf setting_id (settings s)"
    using assms(1) by (simp_all add: store_wf_def)
  have pe: "set (concat (map (\<lambda>room. getPlayersInRoom s (room_id room)) (rooms s))) = set (players s)"
    using assms(2) unfolding getPlayersInRoom_def set_concat_index rooms_exist_def
    by (auto simp: list_all_iff)
  have me: "set (concat (map (\<lambda>room. getMatchesInRoom s (room_id room)) (rooms s))) = set (matches s)"
    using assms(2) unfolding getMatchesInRoom_def set_concat_index rooms_exist_def
    by (auto simp: list_all_iff)
  have r: "fold (os_put room_id) (rooms s) [] = rooms s"
    using wf(1) by (rule fold_put_rebuild) simp
  have p: "fold (os_put player_id)
             (concat (map (\<lambda>room. getPlayersInRoom s (room_id room)) (rooms s))) [] = players s"
    using wf(2) pe by (rule fold_put_rebuild)
  have m: "fold (os_put match_id)
             (concat (map (\<lambda>room. getMatchesInRoom s (room_id room)) (rooms s))) [] = matches s"
    using wf(3) me by (rule fold_put_rebuild)
  have st: "fold (os_put setting_id) (settings s) [] = settings s"
    using wf(4) by (rule fold_put_rebuild) simp
  show ?thesis
    by (simp add: importData_def exportAllData_def empty_store_def put_all_def
        getAllRooms_def Let_def r p m st)
qed

lemma import_export_intact_example:
  "store_wf ex_store \<and> rooms_exist ex_store \<and>
   importData (exportAllData ex_store 6) empty_store = Inr ex_store"
  using import_export_intact [OF ex_wf ex_re, of 6] ex_wf ex_re by simp

section \<open>The first error of the validator\<close>

text \<open>
  Claim C3, as amended. \<open>validateImportData({})\<close> throws the error that names the
  missing \<open>version\<close>. With a \<open>rooms\<close> array present,
  \<open>validateImportData({version: 1, rooms: [], matches: [{id: "m1"}]})\<close> throws the error
  that names the match at index 0 and its missing \<open>roomId\<close>. Without \<open>rooms\<close> and
  \<open>room\<close>, as in \<open>{version: 1, matches: [{id: "m1"}]}\<close>, the error is the one for the
  missing rooms, which is checked before any record. In general the loop over the
  matches raises the error of the first match that fails, and the checks of a list of
  required fields raise the error that names the first field of the list that is missing.
\<close>

theorem validate_examples:
  "validateImportData (JObj []) = Inl (Error ''Invalid data format: Missing version'') \<and>
   validateImportData
     (JObj [(''version'', JNum (Fin 1)), (''rooms'', JArr []),
            (''matches'', JArr [JObj [(''id'', JStr ''m1'')]])])
     = Inl (Error ''Invalid data format: Match at index 0 is missing roomId'') \<and>
   validateImportData
     (JObj [(''version'', JNum (Fin 1)), (''matches'', JArr [JObj [(''id'', JStr ''m1'')]])])
     = Inl (Error ''Invalid data format: Missing rooms or room'') \<and>
   (j < length ms \<and> (\<forall>i<j. checkMatch (ms ! i) i = Inr ()) \<and> checkMatch (ms ! j) j = Inl e \<longrightarrow>
      forEach_if_array checkMatch (JArr ms) = Inl e) \<and>
   (g \<in> set fs \<and> \<not> truthy (get v g) \<and>
    list_all (\<lambda>h. truthy (get v h)) (takeWhile (\<lambda>h. h \<noteq> g) fs) \<longrightarrow>
      require v kind k fs = Inl (Error (missing_at kind k g)))"
proof (intro conjI impI)
  show "validateImportData (JObj []) = Inl (Error ''Invalid data format: Missing version'')"
    by code_simp
  show "validateImportData
     (JObj [(''version'', JNum (Fin 1)), (''rooms'', JArr []),
            (''matches'', JArr [JObj [(''id'', JStr ''m1'')]])])
     = Inl (Error ''Invalid data format: Match at index 0 is missing roomId'')"
    by code_simp
  show "validateImportData
     (JObj [(''version'', JNum (Fin 1)), (''matches'', JArr [JObj [(''id'', JStr ''m1'')]])])
     = Inl (Error ''Invalid data format: Missing rooms or room'')"
    by code_simp
next
  assume "j < length ms \<and> (\<forall>i<j. checkMatch (ms ! i) i = Inr ()) \<and> checkMatch (ms ! j) j = Inl e"
  then show "forEach_if_array checkMatch (JArr ms) = Inl e"
    using forEach_first [of j ms checkMatch 0 e] by (simp add: forEach_if_array_def)
next
  assume "g \<in> set fs \<and> \<not> truthy (get v g) \<and>
    list_all (\<lambda>h. truthy (get v h)) (takeWhile (\<lambda>h. h \<noteq> g) fs)"
  then show "require v kind k fs = Inl (Error (missing_at kind k g))"
    by (simp add: require_first)
qed

theorem validate_examples_witness:
  "(0::nat) < length [JObj [(''id'', JStr ''m1'')]] \<and>
   checkMatch ([JObj [(''id'', JStr ''m1'')]] ! 0) 0 =
     Inl (Error ''Invalid data format: Match at index 0 is missing roomId'') \<and>
   forEach_if_array checkMatch (JArr [JObj [(''id'', JStr ''m1'')]]) =
     Inl (Error ''Invalid data format: Match at index 0 is missing roomId'') \<and>
   ''roomId'' \<in> set [''id'', ''roomId'', ''player1Id'', ''player2Id''] \<and>
   \<not> truthy (get (JObj [(''id'', JStr ''m1'')]) ''roomId'') \<and>
   list_all (\<lambda>h. truthy (get (JObj [(''id'', JStr ''m1'')]) h))
     (takeWhile (\<lambda>h. h \<noteq> ''roomId'') [''id'', ''roomId'', ''player1Id'', ''player2Id'']) \<and>
   require (JObj [(''id'', JStr ''m1'')]) ''Match'' 0 [''id'', ''roomId'', ''player1Id'', ''player2Id'']
     = Inl (Error (missing_at ''Match'' 0 ''roomId'')) \<and>
   validateImportData (JObj []) \<noteq> Inr ()"
proof -
  let ?m = "JObj [(''id'', JStr ''m1'')]"
  let ?e = "Error ''Invalid data format: Match at index 0 is missing roomId''"
  let ?fs = "[''id'', ''roomId'', ''player1Id'', ''player2Id'']"
  have c: "checkMatch ([?m] ! 0) 0 = Inl ?e" by code_simp
  have h1: "(0::nat) < length [?m] \<and> (\<forall>i<0. checkMatch ([?m] ! i) i = Inr ()) \<and>
      checkMatch ([?m] ! 0) 0 = Inl ?e"
    using c by simp
  have h2: "''roomId'' \<in> set ?fs \<and> \<not> truthy (get ?m ''roomId'') \<and>
      list_all (\<lambda>h. truthy (get ?m h)) (takeWhile (\<lambda>h. h \<noteq> ''roomId'') ?fs)"
    by simp
  note t = validate_examples [of 0 "[?m]" ?e "''roomId''" ?fs ?m "''Match''" 0]
  from t h1 have 1: "forEach_if_array checkMatch (JArr [?m]) = Inl ?e" by blast
  from t h2 have 2: "require ?m ''Match'' 0 ?fs = Inl (Error (missing_at ''Match'' 0 ''roomId''))"
    by blast
  from t have 3: "validateImportData (JObj []) \<noteq> Inr ()" by simp
  from h1 h2 1 2 3 show ?thesis by blast
qed

text \<open>
  Claim C3 as stated fails on its second input: the bundle has neither \<open>rooms\<close> nor
  \<open>room\<close>, so the error raised is not the one about the match at index 0.
\<close>

theorem validate_examples_counterexample:
  "validateImportData
     (JObj [(''version'', JNum (Fin 1)), (''matches'', JArr [JObj [(''id'', JStr ''m1'')]])])
     = Inl (Error ''Invalid data format: Missing rooms or room'') \<and>
   ''Invalid data format: Missing rooms or room'' \<noteq> missing_at ''Match'' 0 ''roomId'' \<and>
   missing_at ''Match'' 0 ''roomId'' = ''Invalid data format: Match at index 0 is missing roomId''"
  by code_simp

section \<open>The current streak\<close>

text \<open>
  Claim C4. The streak that \<open>calculatePlayerStats\<close> returns for a player is the streak
  of the specification over the matches the player took part in: these sorted by date,
  newest first; the type of the streak is whether the newest match was a win; its length
  is the number of matches at the front of that order with this same outcome.
  \<open>DB.getPlayerStats\<close> computes the same over the player's matches in the store. In
  particular four matches of the player, in ascending order of date won, won, lost and
  won, give a winning streak of length 1.
\<close>

theorem streak_follows_spec:
  "st_currentStreak (calculatePlayerStats p ms) =
     fst (spec_streak (player_id p)
           (filter (\<lambda>m. player1Id m = player_id p \<or> player2Id m = player_id p) ms)) \<and>
   st_isWinningStreak (calculatePlayerStats p ms) =
     snd (spec_streak (player_id p)
           (filter (\<lambda>m. player1Id m = player_id p \<or> player2Id m = player_id p) ms)) \<and>
   (getPlayerStats s pid = Inr st \<longrightarrow>
      db_currentStreak st = fst (spec_streak pid (getPlayerMatches s pid)) \<and>
      db_isWinningStreak st = snd (spec_streak pid (getPlayerMatches s pid))) \<and>
   (list_all (\<lambda>m. player1Id m = player_id p \<or> player2Id m = player_id p) [m1, m2, m3, m4] \<and>
    date m1 < date m2 \<and> date m2 < date m3 \<and> date m3 < date m4 \<and>
    winnerId m1 = player_id p \<and> winnerId m2 = player_id p \<and>
    winnerId m3 \<noteq> player_id p \<and> winnerId m4 = player_id p \<longrightarrow>
      st_currentStreak (calculatePlayerStats p [m1, m2, m3, m4]) = 1 \<and>
      st_isWinningStreak (calculatePlayerStats p [m1, m2, m3, m4]))"
proof (intro conjI impI)
  show "st_currentStreak (calculatePlayerStats p ms) =
     fst (spec_streak (player_id p)
           (filter (\<lambda>m. player1Id m = player_id p \<or> player2Id m = player_id p) ms))"
    by (simp add: calculatePlayerStats_def Let_def current_streak_spec)
  show "st_isWinningStreak (calculatePlayerStats p ms) =
     snd (spec_streak (player_id p)
           (filter (\<lambda>m. player1Id m = player_id p \<or> player2Id m = player_id p) ms))"
    by (simp add: calculatePlayerStats_def Let_def current_streak_spec)
next
  assume "getPlayerStats s pid = Inr st"
  then have st: "db_currentStreak st = fst (current_streak pid (getPlayerMatches s pid))"
      "db_isWinningStreak st = snd (current_streak pid (getPlayerMatches s pid))"
    by (auto simp: getPlayerStats_def Let_def split: option.splits)
  then show "db_currentStreak st = fst (spec_streak pid (getPlayerMatches s pid))"
    "db_isWinningStreak st = snd (spec_streak pid (getPlayerMatches s pid))"
    by (simp_all add: current_streak_spec)
next
  assume a: "list_all (\<lambda>m. player1Id m = player_id p \<or> player2Id m = player_id p) [m1, m2, m3, m4] \<and>
    date m1 < date m2 \<and> date m2 < date m3 \<and> date m3 < date m4 \<and>
    winnerId m1 = player_id p \<and> winnerId m2 = player_id p \<and>
    winnerId m3 \<noteq> player_id p \<and> winnerId m4 = player_id p"
  then have f: "filter (\<lambda>m. player1Id m = player_id p \<or> player2Id m = player_id p) [m1, m2, m3, m4]
      = [m1, m2, m3, m4]"
    by simp
  have s: "js_sort newest_first [m1, m2, m3, m4] = [m4, m3, m2, m1]"
    using a by (intro sort_four) simp_all
  have c: "current_streak (player_id p) [m1, m2, m3, m4] = (1, True)"
    using a by (simp add: current_streak_def s)
  show "st_currentStreak (calculatePlayerStats p [m1, m2, m3, m4]) = 1"
    "st_isWinningStreak (calculatePlayerStats p [m1, m2, m3, m4])"
    by (simp_all add: calculatePlayerStats_def Let_def f c del: filter.simps)
qed

theorem streak_follows_spec_witness:
  "getPlayerStats ex_store ''p1'' =
     Inr \<lparr>db_matches = 1, db_wins = 1, db_losses = 0, db_winPercentage = 100,
          db_currentStreak = 1, db_isWinningStreak = True\<rparr> \<and>
   spec_streak ''p1'' (getPlayerMatches ex_store ''p1'') = (1, True) \<and>
   list_all (\<lambda>m. player1Id m = ''ann'' \<or> player2Id m = ''ann'') ex_streak_matches \<and>
   map date ex_streak_matches = [1, 2, 3, 4] \<and>
   map (\<lambda>m. winnerId m = ''ann'') ex_streak_matches = [True, True, False, True] \<and>
   spec_streak ''ann'' ex_streak_matches = (1, True) \<and>
   st_currentStreak (calculatePlayerStats (ex_player ''ann'' ''Ann'') ex_streak_matches) = 1 \<and>
   st_isWinningStreak (calculatePlayerStats (ex_player ''ann'' ''Ann'') ex_streak_matches)"
proof -
  let ?p = "ex_player ''ann'' ''Ann''"
  let ?m1 = "ex_match ''m1'' ''ann'' ''bob'' 11 5 1" and ?m2 = "ex_match ''m2'' ''bob'' ''ann'' 7 11 2"
  let ?m3 = "ex_match ''m3'' ''ann'' ''bob'' 9 11 3" and ?m4 = "ex_match ''m4'' ''ann'' ''bob'' 11 8 4"
  let ?st = "\<lparr>db_matches = 1, db_wins = 1, db_losses = 0, db_winPercentage = 100,
          db_currentStreak = 1, db_isWinningStreak = True\<rparr>"
  have ms: "ex_streak_matches = [?m1, ?m2, ?m3, ?m4]"
    by (simp add: ex_streak_matches_def)
  have pid: "player_id ?p = ''ann''" by (simp add: ex_player_def)
  have h: "list_all (\<lambda>m. player1Id m = ''ann'' \<or> player2Id m = ''ann'') ex_streak_matches"
    "map date ex_streak_matches = [1, 2, 3, 4]"
    "map (\<lambda>m. winnerId m = ''ann'') ex_streak_matches = [True, True, False, True]"
    by (simp_all add: ex_streak_matches_def ex_match_def)
  have f: "filter (\<lambda>m. player1Id m = ''ann'' \<or> player2Id m = ''ann'') ex_streak_matches
      = ex_streak_matches"
    using h(1) by (simp add: list_all_iff)
  have hyp: "list_all (\<lambda>m. player1Id m = player_id ?p \<or> player2Id m = player_id ?p)
        [?m1, ?m2, ?m3, ?m4] \<and>
      date ?m1 < date ?m2 \<and> date ?m2 < date ?m3 \<and> date ?m3 < date ?m4 \<and>
      winnerId ?m1 = player_id ?p \<and> winnerId ?m2 = player_id ?p \<and>
      winnerId ?m3 \<noteq> player_id ?p \<and> winnerId ?m4 = player_id ?p"
    by (simp add: ex_match_def ex_player_def)
  note t = streak_follows_spec [of ?p ex_streak_matches ex_store "''p1''" ?st ?m1 ?m2 ?m3 ?m4]
  note A = t [THEN conjunct1] and B = t [THEN conjunct2, THEN conjunct1]
    and C = t [THEN conjunct2, THEN conjunct2, THEN conjunct1]
    and D = t [THEN conjunct2, THEN conjunct2, THEN conjunct2]
  from D hyp have "st_currentStreak (calculatePlayerStats ?p [?m1, ?m2, ?m3, ?m4]) = 1 \<and>
      st_isWinningStreak (calculatePlayerStats ?p [?m1, ?m2, ?m3, ?m4])"
    by (rule mp)
  then have four: "st_currentStreak (calculatePlayerStats ?p ex_streak_matches) = 1"
    "st_isWinningStreak (calculatePlayerStats ?p ex_streak_matches)"
    unfolding ms [symmetric] by simp_all
  have sp: "spec_streak ''ann'' ex_streak_matches = (1, True)"
    using A B four unfolding pid f by (simp add: prod_eq_iff)
  from C ex_db_stats
  have "db_currentStreak ?st = fst (spec_streak ''p1'' (getPlayerMatches ex_store ''p1'')) \<and>
        db_isWinningStreak ?st = snd (spec_streak ''p1'' (getPlayerMatches ex_store ''p1''))"
    by (rule mp)
  then have db: "spec_streak ''p1'' (getPlayerMatches ex_store ''p1'') = (1, True)"
    by (simp add: prod_eq_iff)
  from ex_db_stats db h sp four show ?thesis by simp
qed

section \<open>The order of the leaderboard\<close>

text \<open>
  Claim C5. The leaderboard holds one entry for each player, and the entry carries that
  player's results: the number of matches the player took part in, the number of those
  the player won, the remaining ones as losses, the win percentage computed from these
  two counts, and the current streak. The win percentage of \<open>w\<close> wins in \<open>n > 0\<close> matches
  is \<open>Math.round((w / n) * 100)\<close>, which lies within one half (and the rounding of the
  two operations on doubles) of \<open>100 w / n\<close>; it is 0 when there is no match, 100 for
  2 wins in 2 matches and 67 for 2 wins in 3 matches. The entries are sorted by win
  percentage descending, then by wins descending, then by number of matches ascending.
  In particular an entry with 2 wins in 2 matches stands before an entry with 2 wins in
  3 matches, wherever the two occur.
\<close>

theorem leaderboard_order:
  "sorted_wrt spec_ranks_before (generateLeaderboardData ps ms) \<and>
   mset (generateLeaderboardData ps ms) =
     mset (map (\<lambda>p.
        let pm = filter (\<lambda>m. player1Id m = player_id p \<or> player2Id m = player_id p) ms;
            w = length (filter (\<lambda>m. winnerId m = player_id p) pm)
        in \<lparr>lb_id = player_id p, lb_name = player_name p,
            lb_matches = length pm, lb_wins = w, lb_losses = length pm - w,
            lb_winPercentage = win_percentage w (length pm),
            lb_currentStreak = fst (spec_streak (player_id p) pm),
            lb_isWinningStreak = snd (spec_streak (player_id p) pm)\<rparr>) ps) \<and>
   (0 < n \<longrightarrow>
      win_percentage w n = Math_round (js_times (js_divide (int w) (int n)) 100) \<and>
      \<bar>of_int (win_percentage w n) - 100 * (of_nat w / of_nat n :: rat)\<bar>
        \<le> 1 / 2 + (of_nat w / of_nat n) / 2 ^ 45) \<and>
   win_percentage w 0 = 0 \<and>
   win_percentage 2 2 = 100 \<and> win_percentage 2 3 = 67 \<and>
   (\<forall>i j. i < length (generateLeaderboardData ps ms) \<and>
          j < length (generateLeaderboardData ps ms) \<and>
          lb_wins (generateLeaderboardData ps ms ! i) = 2 \<and>
          lb_matches (generateLeaderboardData ps ms ! i) = 2 \<and>
          lb_wins (generateLeaderboardData ps ms ! j) = 2 \<and>
          lb_matches (generateLeaderboardData ps ms ! j) = 3 \<longrightarrow> i < j)"
proof (intro conjI allI impI)
  show sorted: "sorted_wrt spec_ranks_before (generateLeaderboardData ps ms)"
    by (simp add: generateLeaderboardData_def sorted_leaderboard)
  have "mset (generateLeaderboardData ps ms) = mset (map (leaderboard_entry ms) ps)"
    by (simp add: generateLeaderboardData_def mset_js_sort)
  also have "map (leaderboard_entry ms) ps =
     map (\<lambda>p.
        let pm = filter (\<lambda>m. player1Id m = player_id p \<or> player2Id m = player_id p) ms;
            w = length (filter (\<lambda>m. winnerId m = player_id p) pm)
        in \<lparr>lb_id = player_id p, lb_name = player_name p,
            lb_matches = length pm, lb_wins = w, lb_losses = length pm - w,
            lb_winPercentage = win_percentage w (length pm),
            lb_currentStreak = fst (spec_streak (player_id p) pm),
            lb_isWinningStreak = snd (spec_streak (player_id p) pm)\<rparr>) ps"
    by (rule map_cong [OF refl]) (rule leaderboard_entry_eq)
  finally show "mset (generateLeaderboardData ps ms) =
     mset (map (\<lambda>p.
        let pm = filter (\<lambda>m. player1Id m = player_id p \<or> player2Id m = player_id p) ms;
            w = length (filter (\<lambda>m. winnerId m = player_id p) pm)
        in \<lparr>lb_id = player_id p, lb_name = player_name p,
            lb_matches = length pm, lb_wins = w, lb_losses = length pm - w,
            lb_winPercentage = win_percentage w (length pm),
            lb_currentStreak = fst (spec_streak (player_id p) pm),
            lb_isWinningStreak = snd (spec_streak (player_id p) pm)\<rparr>) ps)" .
  show "win_percentage w 0 = 0" by (simp add: win_percentage_def)
  show "win_percentage 2 2 = 100" "win_percentage 2 3 = 67"
    by (rule win_percentage_values)+
next
  assume "0 < n"
  note e = win_percentage_error [OF this, of w]
  show "win_percentage w n = Math_round (js_times (js_divide (int w) (int n)) 100)"
    by (rule conjunct1 [OF e])
  show "\<bar>of_int (win_percentage w n) - 100 * (of_nat w / of_nat n :: rat)\<bar>
        \<le> 1 / 2 + (of_nat w / of_nat n) / 2 ^ 45"
    by (rule conjunct2 [OF e])
next
  fix i j
  let ?L = "generateLeaderboardData ps ms"
  assume a: "i < length ?L \<and> j < length ?L \<and>
          lb_wins (?L ! i) = 2 \<and> lb_matches (?L ! i) = 2 \<and>
          lb_wins (?L ! j) = 2 \<and> lb_matches (?L ! j) = 3"
  have sorted: "sorted_wrt spec_ranks_before ?L"
    by (simp add: generateLeaderboardData_def sorted_leaderboard)
  from a have pi: "lb_winPercentage (?L ! i) = 100" and pj: "lb_winPercentage (?L ! j) = 67"
    using entry_percentage [of "?L ! i" ps ms] entry_percentage [of "?L ! j" ps ms]
    by (simp_all add: win_percentage_values)
  show "i < j"
  proof (rule ccontr)
    assume "\<not> i < j"
    moreover from a have "i \<noteq> j" by auto
    ultimately have "j < i" by simp
    with sorted a have "spec_ranks_before (?L ! j) (?L ! i)"
      by (simp add: sorted_wrt_iff_nth_less)
    with pi pj show False by (simp add: spec_ranks_before_def)
  qed
qed

text \<open>
  The league of three players: Ann won 2 of 2, Bob 2 of 3 and Cy 1 of 5; the leaderboard
  lists them in this order with 100, 67 and 20 percent.
\<close>

theorem leaderboard_order_witness:
  "(0::nat) < 3 \<and>
   win_percentage 2 3 = Math_round (js_times (js_divide (int 2) (int 3)) 100) \<and>
   \<bar>of_int (win_percentage 2 3) - 100 * (of_nat 2 / of_nat 3 :: rat)\<bar>
     \<le> 1 / 2 + (of_nat 2 / of_nat 3) / 2 ^ 45 \<and>
   (0::nat) < length (generateLeaderboardData ex_league_players ex_league_matches) \<and>
   (1::nat) < length (generateLeaderboardData ex_league_players ex_league_matches) \<and>
   lb_wins (generateLeaderboardData ex_league_players ex_league_matches ! 0) = 2 \<and>
   lb_matches (generateLeaderboardData ex_league_players ex_league_matches ! 0) = 2 \<and>
   lb_wins (generateLeaderboardData ex_league_players ex_league_matches ! 1) = 2 \<and>
   lb_matches (generateLeaderboardData ex_league_players ex_league_matches ! 1) = 3 \<and>
   (0::nat) < 1 \<and>
   map lb_id (generateLeaderboardData ex_league_players ex_league_matches) = [''ann'', ''bob'', ''cy''] \<and>
   map lb_winPercentage (generateLeaderboardData ex_league_players ex_league_matches) = [100, 67, 20] \<and>
   sorted_wrt spec_ranks_before (generateLeaderboardData ex_league_players ex_league_matches)"
proof -
  note t = leaderboard_order [of ex_league_players ex_league_matches 3 2]
  have n: "(0::nat) < 3"
    by simp
  from t n have 1: "win_percentage 2 3 = Math_round (js_times (js_divide (int 2) (int 3)) 100) \<and>
   \<bar>of_int (win_percentage 2 3) - 100 * (of_nat 2 / of_nat 3 :: rat)\<bar>
     \<le> 1 / 2 + (of_nat 2 / of_nat 3) / 2 ^ 45"
    by blast
  from t have 2: "sorted_wrt spec_ranks_before (generateLeaderboardData ex_league_players ex_league_matches)"
    by blast
  have 3: "(0::nat) < length (generateLeaderboardData ex_league_players ex_league_matches) \<and>
   (1::nat) < length (generateLeaderboardData ex_league_players ex_league_matches) \<and>
   lb_wins (generateLeaderboardData ex_league_players ex_league_matches ! 0) = 2 \<and>
   lb_matches (generateLeaderboardData ex_league_players ex_league_matches ! 0) = 2 \<and>
   lb_wins (generateLeaderboardData ex_league_players ex_league_matches ! 1) = 2 \<and>
   lb_matches (generateLeaderboardData ex_league_players ex_league_matches ! 1) = 3"
    by (simp add: ex_league)
  have 4: "map lb_id (generateLeaderboardData ex_league_players ex_league_matches) = [''ann'', ''bob'', ''cy''] \<and>
   map lb_winPercentage (generateLeaderboardData ex_league_players ex_league_matches) = [100, 67, 20]"
    by (simp add: ex_league)
  from t have "\<forall>i j. i < length (generateLeaderboardData ex_league_players ex_league_matches) \<and> j < length (generateLeaderboardData ex_league_players ex_league_matches) \<and>
          lb_wins (generateLeaderboardData ex_league_players ex_league_matches ! i) = 2 \<and> lb_matches (generateLeaderboardData ex_league_players ex_league_matches ! i) = 2 \<and>
          lb_wins (generateLeaderboardData ex_league_players ex_league_matches ! j) = 2 \<and> lb_matches (generateLeaderboardData ex_league_players ex_league_matches ! j) = 3 \<longrightarrow> i < j"
    by blast
  with 3 have 5: "(0::nat) < 1"
    by blast
  from n 1 2 3 4 5 show ?thesis
    by blast
qed


section \<open>The win/loss ratio\<close>

text \<open>
  Claim C6, as amended. With \<open>wins\<close> and \<open>losses\<close> the numbers of matches of the player
  that the player won and did not win: when \<open>losses > 0\<close>, \<open>winLossRatio\<close> is
  \<open>Math.round((wins / losses) * 100) / 100\<close> in double arithmetic, the quotient rounded
  to two decimals, which lies within \<open>0.005\<close> of \<open>wins / losses\<close> up to the rounding
  error of the doubles, \<open>(wins / losses + 1) / 2 ^ 51\<close>; when \<open>losses = 0\<close> it is
  \<open>Infinity\<close> if \<open>wins > 0\<close> and \<open>0\<close> if \<open>wins = 0\<close>. A player with no matches has
  zero matches, wins, losses, win percentage and ratio.
\<close>

theorem winLossRatio_rounded:
  fixes p :: player and ms :: "match list"
  defines "S \<equiv> calculatePlayerStats p ms"
  shows
  "(0 < st_losses S \<longrightarrow>
      (\<exists>d. st_winLossRatio S = Finite d \<and>
           d = js_divide (Math_round (js_times (js_divide (int (st_wins S)) (int (st_losses S))) 100)) 100 \<and>
           \<bar>dval d - of_nat (st_wins S) / of_nat (st_losses S)\<bar>
             \<le> 1 / 200 + (of_nat (st_wins S) / of_nat (st_losses S) + 1) / 2 ^ 51)) \<and>
   (st_losses S = 0 \<and> 0 < st_wins S \<longrightarrow> st_winLossRatio S = Infinity) \<and>
   (st_losses S = 0 \<and> st_wins S = 0 \<longrightarrow> st_winLossRatio S = Finite (0, 0) \<and> dval (0, 0) = 0) \<and>
   (st_matches S = 0 \<longrightarrow>
      st_wins S = 0 \<and> st_losses S = 0 \<and> st_winPercentage S = 0 \<and>
      st_winLossRatio S = Finite (0, 0)) \<and>
   st_wins S = length (filter (\<lambda>m. (player1Id m = player_id p \<or> player2Id m = player_id p) \<and>
                                    winnerId m = player_id p) ms) \<and>
   st_losses S = length (filter (\<lambda>m. (player1Id m = player_id p \<or> player2Id m = player_id p) \<and>
                                      winnerId m \<noteq> player_id p) ms)"
proof (intro conjI impI)
  assume "0 < st_losses S"
  from win_loss_ratio_error [OF this, of "st_wins S"]
  show "\<exists>d. st_winLossRatio S = Finite d \<and>
           d = js_divide (Math_round (js_times (js_divide (int (st_wins S)) (int (st_losses S))) 100)) 100 \<and>
           \<bar>dval d - of_nat (st_wins S) / of_nat (st_losses S)\<bar>
             \<le> 1 / 200 + (of_nat (st_wins S) / of_nat (st_losses S) + 1) / 2 ^ 51"
    unfolding S_def stats_fields(1) [of p ms] .
next
  assume "st_losses S = 0 \<and> 0 < st_wins S"
  then show "st_winLossRatio S = Infinity"
    unfolding S_def stats_fields(1) [of p ms] by (simp add: win_loss_ratio_def)
next
  assume "st_losses S = 0 \<and> st_wins S = 0"
  then show "st_winLossRatio S = Finite (0, 0)"
    unfolding S_def stats_fields(1) [of p ms] by (simp add: win_loss_ratio_def)
next
  show "dval (0, 0) = 0" by (rule dval_zero)
next
  assume z: "st_matches S = 0"
  then show w: "st_wins S = 0" and l: "st_losses S = 0"
    unfolding S_def using stats_fields(5) [of p ms] by simp_all
  from z w show "st_winPercentage S = 0"
    unfolding S_def stats_fields(2) [of p ms] by (simp add: win_percentage_def)
  from w l show "st_winLossRatio S = Finite (0, 0)"
    unfolding S_def stats_fields(1) [of p ms] by (simp add: win_loss_ratio_def)
next
  show "st_wins S = length (filter (\<lambda>m. (player1Id m = player_id p \<or> player2Id m = player_id p) \<and>
                                    winnerId m = player_id p) ms)"
    unfolding S_def by (rule stats_fields(3))
  show "st_losses S = length (filter (\<lambda>m. (player1Id m = player_id p \<or> player2Id m = player_id p) \<and>
                                      winnerId m \<noteq> player_id p) ms)"
    unfolding S_def by (rule stats_fields(4))
qed

theorem winLossRatio_rounded_witness:
  "0 < st_losses (calculatePlayerStats (ex_player ''ann'' ''Ann'') ex_ratio_matches) \<and>
   st_wins (calculatePlayerStats (ex_player ''ann'' ''Ann'') ex_ratio_matches) = 1 \<and>
   st_losses (calculatePlayerStats (ex_player ''ann'' ''Ann'') ex_ratio_matches) = 3 \<and>
   (\<exists>d. st_winLossRatio (calculatePlayerStats (ex_player ''ann'' ''Ann'') ex_ratio_matches) = Finite d \<and>
        \<bar>dval d - 1 / 3\<bar> \<le> 1 / 200 + (1 / 3 + 1) / 2 ^ 51) \<and>
   st_losses (calculatePlayerStats (ex_player ''ann'' ''Ann'') ex_league_matches) = 0 \<and>
   0 < st_wins (calculatePlayerStats (ex_player ''ann'' ''Ann'') ex_league_matches) \<and>
   st_winLossRatio (calculatePlayerStats (ex_player ''ann'' ''Ann'') ex_league_matches) = Infinity \<and>
   st_matches (calculatePlayerStats (ex_player ''ann'' ''Ann'') []) = 0 \<and>
   st_winLossRatio (calculatePlayerStats (ex_player ''ann'' ''Ann'') []) = Finite (0, 0)"
proof -
  let ?p = "ex_player ''ann'' ''Ann''"
  have a: "0 < st_losses (calculatePlayerStats ?p ex_ratio_matches)"
    "st_wins (calculatePlayerStats ?p ex_ratio_matches) = 1"
    "st_losses (calculatePlayerStats ?p ex_ratio_matches) = 3"
    by (simp_all add: ex_ratio_stats)
  have b: "st_losses (calculatePlayerStats ?p ex_league_matches) = 0 \<and>
    0 < st_wins (calculatePlayerStats ?p ex_league_matches)"
    by (simp add: ex_unbeaten_stats)
  have c: "st_matches (calculatePlayerStats ?p []) = 0"
    by (simp add: ex_no_matches_stats)
  from winLossRatio_rounded [of ?p ex_ratio_matches] a(1)
  have "\<exists>d. st_winLossRatio (calculatePlayerStats ?p ex_ratio_matches) = Finite d \<and>
        \<bar>dval d - of_nat (st_wins (calculatePlayerStats ?p ex_ratio_matches)) /
                   of_nat (st_losses (calculatePlayerStats ?p ex_ratio_matches))\<bar>
        \<le> 1 / 200 + (of_nat (st_wins (calculatePlayerStats ?p ex_ratio_matches)) /
                   of_nat (st_losses (calculatePlayerStats ?p ex_ratio_matches)) + 1) / 2 ^ 51"
    by blast
  then have 1: "\<exists>d. st_winLossRatio (calculatePlayerStats ?p ex_ratio_matches) = Finite d \<and>
        \<bar>dval d - 1 / 3\<bar> \<le> 1 / 200 + (1 / 3 + 1) / 2 ^ 51"
    unfolding a(2) a(3) by simp
  from winLossRatio_rounded [of ?p ex_league_matches] b
  have 2: "st_winLossRatio (calculatePlayerStats ?p ex_league_matches) = Infinity"
    by blast
  from winLossRatio_rounded [of ?p "[]"] c
  have 3: "st_winLossRatio (calculatePlayerStats ?p []) = Finite (0, 0)"
    by blast
  from a b c 1 2 3 show ?thesis by blast
qed

text \<open>
  Claim C6 as stated fails for 1 win and 3 losses: the ratio returned is the double
  nearest to \<open>0.33\<close>, which is neither the double \<open>1 / 3\<close> nor the exact quotient.
\<close>

theorem winLossRatio_rounded_counterexample:
  "st_wins (calculatePlayerStats (ex_player ''ann'' ''Ann'') ex_ratio_matches) = 1 \<and>
   st_losses (calculatePlayerStats (ex_player ''ann'' ''Ann'') ex_ratio_matches) = 3 \<and>
   st_winLossRatio (calculatePlayerStats (ex_player ''ann'' ''Ann'') ex_ratio_matches)
     = Finite (5944751508129055, - 54) \<and>
   js_divide 1 3 = (6004799503160661, - 54) \<and>
   dval (5944751508129055, - 54) < 331 / 1000 \<and>
   dval (5944751508129055, - 54) \<noteq> 1 / 3"
proof -
  have "js_divide 1 3 = (6004799503160661, - 54)" by code_simp
  moreover have "dval (5944751508129055, - 54) < 331 / 1000"
    by (simp add: dval_def power_int_minus)
  moreover have "dval (5944751508129055, - 54) \<noteq> 1 / 3"
    by (simp add: dval_def power_int_minus)
  ultimately show ?thesis by (simp add: ex_ratio_stats)
qed

section \<open>Deleting a room\<close>

text \<open>
  Claim C7. In a well-formed store, \<open>deleteRoom\<close> removes the room, every player of the
  room and every match of the room: afterwards no player and no match has the room's id
  as its \<open>roomId\<close>. The records of the other rooms and the settings are kept as they are.
\<close>

theorem deleteRoom_cascade:
  assumes "store_wf s"
  shows "getRoom (deleteRoom s R) R = None \<and>
         R \<notin> player_roomId ` set (players (deleteRoom s R)) \<and>
         R \<notin> match_roomId ` set (matches (deleteRoom s R)) \<and>
         rooms (deleteRoom s R) = filter (\<lambda>r. room_id r \<noteq> R) (rooms s) \<and>
         players (deleteRoom s R) = filter (\<lambda>p. player_roomId p \<noteq> R) (players s) \<and>
         matches (deleteRoom s R) = filter (\<lambda>m. match_roomId m \<noteq> R) (matches s) \<and>
         settings (deleteRoom s R) = settings s"
  by (auto simp: deleteRoom_eq [OF assms] getRoom_def os_get_None_iff)

theorem deleteRoom_cascade_witness:
  "store_wf ex_store2 \<and>
   getRoom (deleteRoom ex_store2 ''r1'') ''r1'' = None \<and>
   map player_id (players (deleteRoom ex_store2 ''r1'')) = [''p3'', ''p4''] \<and>
   map match_id (matches (deleteRoom ex_store2 ''r1'')) = [''m4''] \<and>
   map room_id (rooms (deleteRoom ex_store2 ''r1'')) = [''r2'']"
proof -
  have wf: "store_wf ex_store2"
    by (simp add: ex_store2_def store_wf_def os_wf_def)
  from deleteRoom_cascade [OF wf, of "''r1''"] wf show ?thesis
    by (simp add: ex_store2_def)
qed

section \<open>Optional fields\<close>

text \<open>
  Claim C8. When the optional field is left out of the argument, the record that is
  created and stored has the empty string in it: \<open>description\<close> for \<open>createRoom\<close>,
  \<open>nickname\<close> for \<open>createPlayer\<close> and \<open>notes\<close> for \<open>createMatch\<close>.
\<close>

theorem create_optional_fields:
  "(rd_description rd = None \<and> os_get room_id i (rooms s) = None \<longrightarrow>
      (\<exists>r s'. createRoom s rd i now now' = Inr (r, s') \<and> getRoom s' i = Some r \<and>
               room_description r = [])) \<and>
   (pd_nickname pd = None \<and> os_get player_id i (players s) = None \<longrightarrow>
      (\<exists>p s'. createPlayer s pd i now now' = Inr (p, s') \<and> getPlayer s' i = Some p \<and>
               player_nickname p = [])) \<and>
   (md_notes md = None \<and> os_get match_id i (matches s) = None \<longrightarrow>
      (\<exists>m s'. createMatch s md i now = Inr (m, s') \<and>
               os_get match_id i (matches s') = Some m \<and> match_notes m = []))"
proof (intro conjI impI)
  assume a: "rd_description rd = None \<and> os_get room_id i (rooms s) = None"
  let ?r = "\<lparr>room_id = i, room_name = rd_name rd, room_description = [],
              room_createdAt = now, room_updatedAt = now'\<rparr>"
  have "createRoom s rd i now now' = Inr (?r, s\<lparr>rooms := os_put room_id ?r (rooms s)\<rparr>)"
    using a by (simp add: createRoom_def os_add_def or_empty_def Let_def)
  moreover have "getRoom (s\<lparr>rooms := os_put room_id ?r (rooms s)\<rparr>) i = Some ?r"
    using os_get_put_same [of room_id ?r "rooms s"] by (simp add: getRoom_def)
  ultimately show "\<exists>r s'. createRoom s rd i now now' = Inr (r, s') \<and> getRoom s' i = Some r \<and>
               room_description r = []"
    by (intro exI [of _ ?r] exI [of _ "s\<lparr>rooms := os_put room_id ?r (rooms s)\<rparr>"]) simp
next
  assume a: "pd_nickname pd = None \<and> os_get player_id i (players s) = None"
  let ?p = "\<lparr>player_id = i, player_roomId = pd_roomId pd, player_name = pd_name pd,
              player_nickname = [], player_createdAt = now, player_updatedAt = now'\<rparr>"
  have "createPlayer s pd i now now' = Inr (?p, s\<lparr>players := os_put player_id ?p (players s)\<rparr>)"
    using a by (simp add: createPlayer_def os_add_def or_empty_def Let_def)
  moreover have "getPlayer (s\<lparr>players := os_put player_id ?p (players s)\<rparr>) i = Some ?p"
    using os_get_put_same [of player_id ?p "players s"] by (simp add: getPlayer_def)
  ultimately show "\<exists>p s'. createPlayer s pd i now now' = Inr (p, s') \<and> getPlayer s' i = Some p \<and>
               player_nickname p = []"
    by (intro exI [of _ ?p] exI [of _ "s\<lparr>players := os_put player_id ?p (players s)\<rparr>"]) simp
next
  assume a: "md_notes md = None \<and> os_get match_id i (matches s) = None"
  let ?p1 = "parseInt (md_player1Score md)" and ?p2 = "parseInt (md_player2Score md)"
  let ?m = "\<lparr>match_id = i, match_roomId = md_roomId md,
              player1Id = md_player1Id md, player2Id = md_player2Id md,
              player1Score = ?p1, player2Score = ?p2,
              winnerId = (if js_gt ?p1 ?p2 then md_player1Id md else md_player2Id md),
              match_notes = [], date = now\<rparr>"
  have "createMatch s md i now = Inr (?m, s\<lparr>matches := os_put match_id ?m (matches s)\<rparr>)"
    using a by (simp add: createMatch_def os_add_def or_empty_def Let_def)
  moreover have "os_get match_id i (os_put match_id ?m (matches s)) = Some ?m"
    using os_get_put_same [of match_id ?m "matches s"] by simp
  ultimately show "\<exists>m s'. createMatch s md i now = Inr (m, s') \<and>
               os_get match_id i (matches s') = Some m \<and> match_notes m = []"
    by (intro exI [of _ ?m] exI [of _ "s\<lparr>matches := os_put match_id ?m (matches s)\<rparr>"]) simp
qed

theorem create_optional_fields_witness:
  "rd_description \<lparr>rd_name = ''Club'', rd_description = None\<rparr> = None \<and>
   os_get room_id ''r1'' (rooms empty_store) = None \<and>
   (\<exists>r s'. createRoom empty_store \<lparr>rd_name = ''Club'', rd_description = None\<rparr> ''r1'' 0 1 = Inr (r, s') \<and>
       getRoom s' ''r1'' = Some r \<and> room_description r = []) \<and>
   pd_nickname \<lparr>pd_roomId = ''r1'', pd_name = ''Ann'', pd_nickname = None\<rparr> = None \<and>
   os_get player_id ''r1'' (players empty_store) = None \<and>
   (\<exists>p s'. createPlayer empty_store \<lparr>pd_roomId = ''r1'', pd_name = ''Ann'', pd_nickname = None\<rparr> ''r1'' 0 1 = Inr (p, s') \<and>
       getPlayer s' ''r1'' = Some p \<and> player_nickname p = []) \<and>
   md_notes \<lparr>md_roomId = ''r1'', md_player1Id = ''ann'', md_player2Id = ''bob'',
         md_player1Score = ''11'', md_player2Score = ''9'', md_notes = None\<rparr> = None \<and>
   os_get match_id ''r1'' (matches empty_store) = None \<and>
   (\<exists>m s'. createMatch empty_store \<lparr>md_roomId = ''r1'', md_player1Id = ''ann'', md_player2Id = ''bob'',
         md_player1Score = ''11'', md_player2Score = ''9'', md_notes = None\<rparr> ''r1'' 0 = Inr (m, s') \<and>
       os_get match_id ''r1'' (matches s') = Some m \<and> match_notes m = [])"
  using create_optional_fields [of "\<lparr>rd_name = ''Club'', rd_description = None\<rparr>" "''r1''" empty_store 0 1
      "\<lparr>pd_roomId = ''r1'', pd_name = ''Ann'', pd_nickname = None\<rparr>"
      "\<lparr>md_roomId = ''r1'', md_player1Id = ''ann'', md_player2Id = ''bob'',
         md_player1Score = ''11'', md_player2Score = ''9'', md_notes = None\<rparr>"]
  by (simp add: empty_store_def os_get_def)

section \<open>Reading a setting\<close>

text \<open>
  Claim C9. For a key that no setting has, \<open>getSetting\<close> returns \<open>null\<close> (not
  \<open>undefined\<close>). For the key of a stored setting it returns the \<open>value\<close> field of
  that setting, not the setting itself; in particular it returns what \<open>saveSetting\<close>
  stored last under the key.
\<close>

theorem getSetting_value:
  "(k \<notin> setting_id ` set (settings s) \<longrightarrow>
      getSetting s k = JNull \<and> getSetting s k \<noteq> JUndefined) \<and>
   (store_wf s \<and> r \<in> set (settings s) \<and> setting_id r = k \<longrightarrow>
      getSetting s k = setting_value r) \<and>
   getSetting (snd (saveSetting s k v now)) k = v"
proof (intro conjI impI)
  assume "k \<notin> setting_id ` set (settings s)"
  then have "os_get setting_id k (settings s) = None" by (simp add: os_get_None_iff)
  then show "getSetting s k = JNull" "getSetting s k \<noteq> JUndefined"
    by (simp_all add: getSetting_def)
next
  assume a: "store_wf s \<and> r \<in> set (settings s) \<and> setting_id r = k"
  then have "os_get setting_id (setting_id r) (settings s) = Some r"
    by (intro os_get_mem) (simp_all add: store_wf_def)
  with a show "getSetting s k = setting_value r" by (simp add: getSetting_def)
next
  show "getSetting (snd (saveSetting s k v now)) k = v"
    using os_get_put_same [of setting_id
        "\<lparr>setting_id = k, setting_value = v, setting_updatedAt = now\<rparr>" "settings s"]
    by (simp add: getSetting_def saveSetting_def Let_def)
qed

theorem getSetting_value_witness:
  "''lastBackupDate'' \<notin> setting_id ` set (settings ex_store) \<and>
   getSetting ex_store ''lastBackupDate'' = JNull \<and>
   store_wf ex_store \<and>
   \<lparr>setting_id = ''lastRoomId'', setting_value = JStr ''r1'', setting_updatedAt = 5\<rparr>
     \<in> set (settings ex_store) \<and>
   getSetting ex_store ''lastRoomId'' = JStr ''r1''"
proof -
  have a: "''lastBackupDate'' \<notin> setting_id ` set (settings ex_store)"
    by (simp add: ex_store_def)
  have b: "\<lparr>setting_id = ''lastRoomId'', setting_value = JStr ''r1'', setting_updatedAt = 5\<rparr>
     \<in> set (settings ex_store)"
    by (simp add: ex_store_def)
  from getSetting_value [of "''lastBackupDate''" ex_store
      "\<lparr>setting_id = ''lastRoomId'', setting_value = JStr ''r1'', setting_updatedAt = 5\<rparr>"] a
  have 1: "getSetting ex_store ''lastBackupDate'' = JNull" by simp
  from getSetting_value [of "''lastRoomId''" ex_store
      "\<lparr>setting_id = ''lastRoomId'', setting_value = JStr ''r1'', setting_updatedAt = 5\<rparr>"] b ex_wf
  have 2: "getSetting ex_store ''lastRoomId'' = JStr ''r1''" by simp
  from a b 1 2 ex_wf show ?thesis by simp
qed

section \<open>Scores in an imported file\<close>

text \<open>
  Claim C10. Validation reports a missing score only for a score that is \<open>undefined\<close>:
  if the match at index \<open>i\<close> of the \<open>matches\<close> array has a \<open>player1Score\<close> (or
  \<open>player2Score\<close>) that is anything but \<open>undefined\<close>, be it \<open>null\<close> or \<open>0\<close>, then
  \<open>validateImportData\<close> does not raise the error that this field is missing at index \<open>i\<close>.
\<close>

theorem score_rejected_only_when_undefined:
  assumes "get data ''matches'' = JArr ms" and "i < length ms"
    and "f = ''player1Score'' \<or> f = ''player2Score''"
    and "get (ms ! i) f \<noteq> JUndefined"
  shows "validateImportData data \<noteq> Inl (Error (missing_at ''Match'' i f))"
proof
  assume "validateImportData data = Inl (Error (missing_at ''Match'' i f))"
  from score_error_only_if_undefined [OF this assms(3)] assms(1,2,4) show False by auto
qed

theorem score_rejected_only_when_undefined_witness:
  "(\<exists>ms. get ex_bundle ''matches'' = JArr ms \<and> 0 < length ms \<and>
         get (ms ! 0) ''player1Score'' = JNull \<and> get (ms ! 0) ''player2Score'' = JNum (Fin 0)) \<and>
   validateImportData ex_bundle \<noteq> Inl (Error (missing_at ''Match'' 0 ''player1Score'')) \<and>
   validateImportData ex_bundle \<noteq> Inl (Error (missing_at ''Match'' 0 ''player2Score'')) \<and>
   validateImportData ex_bundle = Inr ()"
proof -
  let ?m = "JObj
         [(''id'', JStr ''m1''), (''roomId'', JStr ''r1''),
          (''player1Id'', JStr ''p1''), (''player2Id'', JStr ''p2''),
          (''player1Score'', JNull), (''player2Score'', JNum (Fin 0)),
          (''winnerId'', JStr ''p2''), (''date'', JStr ''2024-01-01T00:00:00.000Z'')]"
  have g: "get ex_bundle ''matches'' = JArr [?m]" by (simp add: ex_bundle_def)
  have l: "0 < length [?m]" by simp
  have s1: "get ([?m] ! 0) ''player1Score'' = JNull"
    and s2: "get ([?m] ! 0) ''player2Score'' = JNum (Fin 0)" by simp_all
  have n1: "get ([?m] ! 0) ''player1Score'' \<noteq> JUndefined"
    and n2: "get ([?m] ! 0) ''player2Score'' \<noteq> JUndefined" by simp_all
  have "validateImportData ex_bundle \<noteq> Inl (Error (missing_at ''Match'' 0 ''player1Score''))"
    using g l _ n1 by (rule score_rejected_only_when_undefined) simp
  moreover
  have "validateImportData ex_bundle \<noteq> Inl (Error (missing_at ''Match'' 0 ''player2Score''))"
    using g l _ n2 by (rule score_rejected_only_when_undefined) simp
  moreover note ex_bundle_valid
  moreover have "\<exists>ms. get ex_bundle ''matches'' = JArr ms \<and> 0 < length ms \<and>
         get (ms ! 0) ''player1Score'' = JNull \<and> get (ms ! 0) ''player2Score'' = JNum (Fin 0)"
    using g l s1 s2 by blast
  ultimately show ?thesis by blast
qed

end
